theory Spec2Isabelle
  imports Complex_Main "HOL-Library.Log_Nat"
begin

section \<open>JavaScript strings\<close>

text \<open>
  A JavaScript string is a sequence of UTF-16 code units. Code units are modelled as
  natural numbers (a real code unit is below \<open>0x10000\<close>); \<open>js\<close> turns an ASCII literal
  into its code units.
\<close>

type_synonym jsstring = "nat list"

definition js :: "string \<Rightarrow> jsstring" where
  "js s = map of_char s"

text \<open>
  \<^verbatim>\<open>String.prototype.trim\<close> strips the code points of the ECMAScript productions
  WhiteSpace and LineTerminator from both ends.
\<close>

definition isWhiteSpace :: "nat \<Rightarrow> bool" where
  "isWhiteSpace c \<longleftrightarrow>
     c = 0x09 \<or> c = 0x0A \<or> c = 0x0B \<or> c = 0x0C \<or> c = 0x0D \<or> c = 0x20 \<or> c = 0xA0 \<or>
     c = 0x1680 \<or> (0x2000 \<le> c \<and> c \<le> 0x200A) \<or> c = 0x2028 \<or> c = 0x2029 \<or>
     c = 0x202F \<or> c = 0x205F \<or> c = 0x3000 \<or> c = 0xFEFF"

definition trim :: "jsstring \<Rightarrow> jsstring" where
  "trim s = rev (dropWhile isWhiteSpace (rev (dropWhile isWhiteSpace s)))"

text \<open>\<^verbatim>\<open>s.split(sep)\<close> for a separator of one code unit; \<^verbatim>\<open>"".split("\n")\<close> is \<^verbatim>\<open>[""]\<close>.\<close>

fun split_on :: "nat \<Rightarrow> jsstring \<Rightarrow> jsstring list" where
  "split_on sep [] = [[]]"
| "split_on sep (c # cs) =
     (if c = sep then [] # split_on sep cs
      else (case split_on sep cs of
              [] \<Rightarrow> [[c]]
            | l # ls \<Rightarrow> (c # l) # ls))"

text \<open>\<^verbatim>\<open>parts.join(sep)\<close>.\<close>

fun join :: "jsstring \<Rightarrow> jsstring list \<Rightarrow> jsstring" where
  "join sep [] = []"
| "join sep [x] = x"
| "join sep (x # y # ys) = x @ sep @ join sep (y # ys)"

text \<open>\<^verbatim>\<open>s.includes(t)\<close>: \<open>t\<close> occurs in \<open>s\<close> as a contiguous run.\<close>

fun startsWith :: "jsstring \<Rightarrow> jsstring \<Rightarrow> bool" where
  "startsWith s [] = True"
| "startsWith [] (t # ts) = False"
| "startsWith (c # cs) (t # ts) = (c = t \<and> startsWith cs ts)"

fun includes_str :: "jsstring \<Rightarrow> jsstring \<Rightarrow> bool" where
  "includes_str [] t = (t = [])"
| "includes_str (c # cs) t = (startsWith (c # cs) t \<or> includes_str cs t)"

definition endsWith :: "jsstring \<Rightarrow> jsstring \<Rightarrow> bool" where
  "endsWith s t = startsWith (rev s) (rev t)"

subsection \<open>normalizeBashCommand\<close>

text \<open>
  \<^verbatim>\<open>command.split('\n').map((line) => line.trim()).filter((line) => line.length > 0).join('\\n')\<close>:
  the separator of the split is the line feed (code unit 10), the separator of the join
  is the two code units backslash and \<open>n\<close>.
\<close>

definition normalizeBashCommand :: "jsstring \<Rightarrow> jsstring" where
  "normalizeBashCommand command =
     join [0x5C, 0x6E] (filter (\<lambda>line. length line > 0) (map trim (split_on 0x0A command)))"

section \<open>JSON values and \<^verbatim>\<open>JSON.parse\<close>\<close>

text \<open>
  \<^verbatim>\<open>JSON.parse\<close> is a built-in of the JavaScript runtime. It is modelled after the
  JSON grammar of ECMA-404: a lexer for the tokens, then a recursive-descent parser.
  A JSON number becomes a JavaScript Number, an IEEE 754 double: the decimal literal is
  rounded to the nearest double, ties to even. The program only observes whether a number
  is zero and whether two numbers are the same key of a \<^verbatim>\<open>Map\<close>, so a double is
  modelled by its exact rational value.
\<close>

datatype number = Finite rat | PosInfinity | NegInfinity

datatype json =
    JNull
  | JBool bool
  | JNumber number
  | JString jsstring
  | JArray "json list"
  | JObject "(jsstring \<times> json) list"

subsection \<open>Numbers\<close>

definition pow2 :: "int \<Rightarrow> rat" where
  "pow2 k = (if 0 \<le> k then 2 ^ nat k else 1 / 2 ^ nat (- k))"

definition pow10 :: "int \<Rightarrow> rat" where
  "pow10 k = (if 0 \<le> k then 10 ^ nat k else 1 / 10 ^ nat (- k))"

text \<open>For \<open>q > 0\<close>, the \<open>k\<close> with \<open>2 ^ k \<le> q < 2 ^ (k + 1)\<close>.\<close>

definition floor_log2 :: "rat \<Rightarrow> int" where
  "floor_log2 q =
     (let (a, b) = quotient_of q; k = bitlen a - bitlen b
      in if pow2 k \<le> q then k else k - 1)"

definition round_half_even :: "rat \<Rightarrow> int" where
  "round_half_even r =
     (let f = \<lfloor>r\<rfloor>; d = r - of_int f
      in if d < 1 / 2 then f else if 1 / 2 < d then f + 1 else if even f then f else f + 1)"

text \<open>
  The double nearest to a rational \<open>q \<ge> 0\<close>: 53 significant bits, exponent at least
  \<open>-1022\<close> (below it the subnormals, spaced \<open>2 ^ -1074\<close>), infinity from \<open>2 ^ 1024\<close>.
\<close>

definition to_double :: "bool \<Rightarrow> rat \<Rightarrow> number" where
  "to_double neg q =
     (if q = 0 then Finite 0
      else let u = max (floor_log2 q) (- 1022) - 52;
               v = of_int (round_half_even (q / pow2 u)) * pow2 u
           in if pow2 1024 \<le> v then (if neg then NegInfinity else PosInfinity)
              else Finite (if neg then - v else v))"

subsection \<open>Lexer\<close>

datatype token =
    TLBrace | TRBrace | TLBracket | TRBracket | TColon | TComma
  | TString jsstring | TNumber number | TTrue | TFalse | TNull

definition isDigit :: "nat \<Rightarrow> bool" where
  "isDigit c \<longleftrightarrow> 0x30 \<le> c \<and> c \<le> 0x39"

definition digits_value :: "jsstring \<Rightarrow> nat" where
  "digits_value ds = foldl (\<lambda>a c. 10 * a + (c - 0x30)) 0 ds"

definition hex_digit :: "nat \<Rightarrow> nat option" where
  "hex_digit c =
     (if 0x30 \<le> c \<and> c \<le> 0x39 then Some (c - 0x30)
      else if 0x41 \<le> c \<and> c \<le> 0x46 then Some (c - 0x41 + 10)
      else if 0x61 \<le> c \<and> c \<le> 0x66 then Some (c - 0x61 + 10)
      else None)"

text \<open>The four hexadecimal digits of a \<^verbatim>\<open>\uXXXX\<close> escape.\<close>

definition hex4 :: "jsstring \<Rightarrow> nat option" where
  "hex4 hs =
     (case map hex_digit hs of
        [Some a, Some b, Some c, Some d] \<Rightarrow> Some (((a * 16 + b) * 16 + c) * 16 + d)
      | _ \<Rightarrow> None)"

text \<open>The single-character escapes: quote, backslash, slash, b, f, n, r, t.\<close>

definition unescape :: "nat \<Rightarrow> nat option" where
  "unescape e =
     (if e = 0x22 then Some 0x22 else if e = 0x5C then Some 0x5C
      else if e = 0x2F then Some 0x2F else if e = 0x62 then Some 0x08
      else if e = 0x66 then Some 0x0C else if e = 0x6E then Some 0x0A
      else if e = 0x72 then Some 0x0D else if e = 0x74 then Some 0x09
      else None)"

text \<open>
  The body of a string literal, after its opening quote: the decoded string and the input
  after the closing quote. Control characters below \<open>0x20\<close> are not allowed unescaped.
\<close>

fun lex_string :: "jsstring \<Rightarrow> (jsstring \<times> jsstring) option" where
  "lex_string [] = None"
| "lex_string (c # cs) =
     (if c = 0x22 then Some ([], cs)
      else if c = 0x5C then
        (case cs of
           [] \<Rightarrow> None
         | e # r \<Rightarrow>
             if e = 0x75 then
               (case hex4 (take 4 r) of
                  None \<Rightarrow> None
                | Some u \<Rightarrow> map_option (\<lambda>(s, rest). (u # s, rest)) (lex_string (drop 4 r)))
             else
               (case unescape e of
                  None \<Rightarrow> None
                | Some x \<Rightarrow> map_option (\<lambda>(s, rest). (x # s, rest)) (lex_string r)))
      else if c < 0x20 then None
      else map_option (\<lambda>(s, rest). (c # s, rest)) (lex_string cs))"

text \<open>
  A number literal: optional minus, integer part (\<open>0\<close>, or a nonzero digit and more
  digits), optional fraction, optional exponent.
\<close>

definition lex_int_part :: "jsstring \<Rightarrow> (jsstring \<times> jsstring) option" where
  "lex_int_part cs =
     (case cs of
        [] \<Rightarrow> None
      | c # r \<Rightarrow>
          if c = 0x30 then Some ([c], r)
          else if isDigit c then Some (takeWhile isDigit cs, dropWhile isDigit cs)
          else None)"

definition lex_frac_part :: "jsstring \<Rightarrow> (jsstring \<times> jsstring) option" where
  "lex_frac_part cs =
     (case cs of
        [] \<Rightarrow> Some ([], cs)
      | c # r \<Rightarrow>
          if c = 0x2E then
            (if takeWhile isDigit r = [] then None
             else Some (takeWhile isDigit r, dropWhile isDigit r))
          else Some ([], cs))"

definition lex_exp_part :: "jsstring \<Rightarrow> (int \<times> jsstring) option" where
  "lex_exp_part cs =
     (case cs of
        [] \<Rightarrow> Some (0, cs)
      | c # r \<Rightarrow>
          if c = 0x65 \<or> c = 0x45 then
            (let (neg, r') =
               (case r of
                  [] \<Rightarrow> (False, r)
                | sg # r'' \<Rightarrow>
                    if sg = 0x2D then (True, r'') else if sg = 0x2B then (False, r'')
                    else (False, r))
             in if takeWhile isDigit r' = [] then None
                else Some ((if neg then - 1 else 1) * int (digits_value (takeWhile isDigit r')),
                           dropWhile isDigit r'))
          else Some (0, cs))"

definition lex_number :: "jsstring \<Rightarrow> (number \<times> jsstring) option" where
  "lex_number cs =
     (let (neg, r0) = (case cs of [] \<Rightarrow> (False, cs) | c # r \<Rightarrow> if c = 0x2D then (True, r) else (False, cs))
      in case lex_int_part r0 of
           None \<Rightarrow> None
         | Some (ds, r1) \<Rightarrow>
             (case lex_frac_part r1 of
                None \<Rightarrow> None
              | Some (fs, r2) \<Rightarrow>
                  (case lex_exp_part r2 of
                     None \<Rightarrow> None
                   | Some (e, r3) \<Rightarrow>
                       Some (to_double neg
                               (of_nat (digits_value (ds @ fs)) * pow10 (e - int (length fs))),
                             r3))))"

definition isJsonSpace :: "nat \<Rightarrow> bool" where
  "isJsonSpace c \<longleftrightarrow> c = 0x20 \<or> c = 0x09 \<or> c = 0x0A \<or> c = 0x0D"

text \<open>
  One token from the front of the input (which does not start with white space), with
  the input after it.
\<close>

definition lex_token :: "jsstring \<Rightarrow> (token \<times> jsstring) option" where
  "lex_token cs =
     (case cs of
        [] \<Rightarrow> None
      | c # r \<Rightarrow>
          if c = 0x7B then Some (TLBrace, r)
          else if c = 0x7D then Some (TRBrace, r)
          else if c = 0x5B then Some (TLBracket, r)
          else if c = 0x5D then Some (TRBracket, r)
          else if c = 0x3A then Some (TColon, r)
          else if c = 0x2C then Some (TComma, r)
          else if c = 0x22 then map_option (\<lambda>(s, rest). (TString s, rest)) (lex_string r)
          else if c = 0x2D \<or> isDigit c then map_option (\<lambda>(x, rest). (TNumber x, rest)) (lex_number cs)
          else if startsWith cs (js ''true'') then Some (TTrue, drop 4 cs)
          else if startsWith cs (js ''false'') then Some (TFalse, drop 5 cs)
          else if startsWith cs (js ''null'') then Some (TNull, drop 4 cs)
          else None)"

text \<open>
  The token list of a text. The guard \<open>length rest < length cs\<close> always holds (a token
  is at least one code unit long, lemma \<open>lex_token_shorter\<close>); it is written out so that
  the recursion is seen to terminate.
\<close>

function tokenize :: "jsstring \<Rightarrow> token list option" where
  "tokenize cs =
     (case cs of
        [] \<Rightarrow> Some []
      | c # r \<Rightarrow>
          if isJsonSpace c then tokenize r
          else (case lex_token cs of
                  None \<Rightarrow> None
                | Some (t, rest) \<Rightarrow>
                    if length rest < length cs then map_option (Cons t) (tokenize rest) else None))"
  by pat_completeness auto
termination
  by (relation "measure length") auto

subsection \<open>Parser\<close>

datatype presult = Parsed json "token list" | SyntaxError | OutOfFuel

text \<open>
  Recursive descent over the tokens. The first argument bounds the number of calls;
  \<open>JSON_parse\<close> supplies more than any token list needs (lemma \<open>parse_value_fuel\<close>).
  \<open>parse_elements\<close> reads the elements of an array after its opening bracket,
  \<open>parse_members\<close> the members of an object after its opening brace.
\<close>

fun parse_value :: "nat \<Rightarrow> token list \<Rightarrow> presult"
  and parse_elements :: "nat \<Rightarrow> json list \<Rightarrow> token list \<Rightarrow> presult"
  and parse_members :: "nat \<Rightarrow> (jsstring \<times> json) list \<Rightarrow> token list \<Rightarrow> presult" where
  "parse_value 0 ts = OutOfFuel"
| "parse_value (Suc n) [] = SyntaxError"
| "parse_value (Suc n) (t # ts) =
     (case t of
        TString s \<Rightarrow> Parsed (JString s) ts
      | TNumber x \<Rightarrow> Parsed (JNumber x) ts
      | TTrue \<Rightarrow> Parsed (JBool True) ts
      | TFalse \<Rightarrow> Parsed (JBool False) ts
      | TNull \<Rightarrow> Parsed JNull ts
      | TLBracket \<Rightarrow>
          (case ts of
             TRBracket # r \<Rightarrow> Parsed (JArray []) r
           | _ \<Rightarrow> parse_elements n [] ts)
      | TLBrace \<Rightarrow>
          (case ts of
             TRBrace # r \<Rightarrow> Parsed (JObject []) r
           | _ \<Rightarrow> parse_members n [] ts)
      | _ \<Rightarrow> SyntaxError)"
| "parse_elements 0 acc ts = OutOfFuel"
| "parse_elements (Suc n) acc ts =
     (case parse_value n ts of
        Parsed v (TComma # r) \<Rightarrow> parse_elements n (acc @ [v]) r
      | Parsed v (TRBracket # r) \<Rightarrow> Parsed (JArray (acc @ [v])) r
      | Parsed v _ \<Rightarrow> SyntaxError
      | SyntaxError \<Rightarrow> SyntaxError
      | OutOfFuel \<Rightarrow> OutOfFuel)"
| "parse_members 0 acc ts = OutOfFuel"
| "parse_members (Suc n) acc ts =
     (case ts of
        TString k # TColon # r \<Rightarrow>
          (case parse_value n r of
             Parsed v (TComma # r') \<Rightarrow> parse_members n (acc @ [(k, v)]) r'
           | Parsed v (TRBrace # r') \<Rightarrow> Parsed (JObject (acc @ [(k, v)])) r'
           | Parsed v _ \<Rightarrow> SyntaxError
           | SyntaxError \<Rightarrow> SyntaxError
           | OutOfFuel \<Rightarrow> OutOfFuel)
      | _ \<Rightarrow> SyntaxError)"

text \<open>
  \<^verbatim>\<open>JSON.parse(text)\<close>: \<open>None\<close> stands for the \<^verbatim>\<open>SyntaxError\<close> it throws. The whole
  text must be one value, white space around it allowed.
\<close>

definition JSON_parse :: "jsstring \<Rightarrow> json option" where
  "JSON_parse text =
     (case tokenize text of
        None \<Rightarrow> None
      | Some ts \<Rightarrow>
          (case parse_value (2 * length ts + 1) ts of
             Parsed v [] \<Rightarrow> Some v
           | _ \<Rightarrow> None))"

section \<open>JavaScript values\<close>

text \<open>
  The result of reading a property is a \<open>json option\<close>: \<open>None\<close> is \<^verbatim>\<open>undefined\<close>.
  \<open>truthy\<close> is the conversion to boolean that \<^verbatim>\<open>!x\<close>, \<^verbatim>\<open>x || y\<close> and \<^verbatim>\<open>if (x)\<close> apply.
\<close>

definition truthy :: "json \<Rightarrow> bool" where
  "truthy v =
     (case v of
        JNull \<Rightarrow> False
      | JBool b \<Rightarrow> b
      | JNumber x \<Rightarrow> x \<noteq> Finite 0
      | JString s \<Rightarrow> s \<noteq> []
      | JArray xs \<Rightarrow> True
      | JObject kvs \<Rightarrow> True)"

definition truthy_opt :: "json option \<Rightarrow> bool" where
  "truthy_opt v = (case v of None \<Rightarrow> False | Some x \<Rightarrow> truthy x)"

datatype exn = TypeError

text \<open>
  \<^verbatim>\<open>v.k\<close> for a value \<open>v\<close> other than \<^verbatim>\<open>null\<close> and a property name \<open>k\<close> that no
  prototype defines, which holds for every name the program reads (\<^verbatim>\<open>type\<close>,
  \<^verbatim>\<open>message\<close>, \<^verbatim>\<open>content\<close>, \<^verbatim>\<open>name\<close>, \<^verbatim>\<open>id\<close>, \<^verbatim>\<open>input\<close>, \<^verbatim>\<open>command\<close>,
  \<^verbatim>\<open>description\<close>, \<^verbatim>\<open>tool_use_id\<close>, \<^verbatim>\<open>is_error\<close>, \<^verbatim>\<open>timestamp\<close>, \<^verbatim>\<open>cwd\<close>). Only an
  object has such a property; of duplicate keys \<^verbatim>\<open>JSON.parse\<close> keeps the last.
\<close>

definition get :: "json \<Rightarrow> jsstring \<Rightarrow> json option" where
  "get v k = (case v of JObject kvs \<Rightarrow> map_of (rev kvs) k | _ \<Rightarrow> None)"

text \<open>\<^verbatim>\<open>v.k\<close> for any value: reading a property of \<^verbatim>\<open>null\<close> throws.\<close>

definition get_checked :: "json \<Rightarrow> jsstring \<Rightarrow> exn + json option" where
  "get_checked v k = (case v of JNull \<Rightarrow> Inl TypeError | _ \<Rightarrow> Inr (get v k))"

text \<open>\<^verbatim>\<open>v?.k\<close>.\<close>

definition get_optional :: "json option \<Rightarrow> jsstring \<Rightarrow> json option" where
  "get_optional v k = (case v of None \<Rightarrow> None | Some JNull \<Rightarrow> None | Some x \<Rightarrow> get x k)"

text \<open>
  \<^verbatim>\<open>content.find(callback)\<close>. The callback may throw; \<^verbatim>\<open>find\<close> stops at the first
  element it accepts. A value that is not an array has no callable \<^verbatim>\<open>find\<close>.
\<close>

fun find_first :: "(json \<Rightarrow> exn + bool) \<Rightarrow> json list \<Rightarrow> exn + json option" where
  "find_first p [] = Inr None"
| "find_first p (b # bs) =
     (case p b of
        Inl e \<Rightarrow> Inl e
      | Inr True \<Rightarrow> Inr (Some b)
      | Inr False \<Rightarrow> find_first p bs)"

definition array_find :: "json \<Rightarrow> (json \<Rightarrow> exn + bool) \<Rightarrow> exn + json option" where
  "array_find content p = (case content of JArray blocks \<Rightarrow> find_first p blocks | _ \<Rightarrow> Inl TypeError)"

text \<open>
  \<^verbatim>\<open>new Date(v)\<close> converts an object to a primitive first, which throws when neither
  \<^verbatim>\<open>valueOf\<close> nor \<^verbatim>\<open>toString\<close> gives one: for a parsed object, when it has a key
  \<^verbatim>\<open>toString\<close> of its own (never callable); for an array, when joining its elements
  meets such an object. The date itself is kept as the value it was built from.
\<close>

datatype timestamp = DateOf json | DateNow

fun to_primitive_throws :: "json \<Rightarrow> bool" where
  "to_primitive_throws (JObject kvs) = (js ''toString'' \<in> set (map fst kvs))"
| "to_primitive_throws (JArray xs) = list_ex to_primitive_throws xs"
| "to_primitive_throws v = False"

definition new_Date :: "json \<Rightarrow> exn + timestamp" where
  "new_Date v = (if to_primitive_throws v then Inl TypeError else Inr (DateOf v))"

section \<open>The parser's data\<close>

datatype source = Bash | User

record ClaudeCommand =
  timestamp :: timestamp
  command :: jsstring
  source :: source
  success :: "bool option"
  description :: "json option"
  projectPath :: "json option"

text \<open>
  \<^verbatim>\<open>pendingCommands\<close>, a \<^verbatim>\<open>Map\<close>: entries in insertion order, keys compared by
  SameValueZero. A key is whatever truthy value the \<^verbatim>\<open>id\<close> of a block holds. Two
  objects or arrays are the same key only if they are the same object, and the keys that
  meet here come from different calls of \<^verbatim>\<open>JSON.parse\<close>.
\<close>

type_synonym pending = "(json \<times> ClaudeCommand) list"

definition same_value_zero :: "json \<Rightarrow> json \<Rightarrow> bool" where
  "same_value_zero a b =
     (case (a, b) of
        (JNull, JNull) \<Rightarrow> True
      | (JBool p, JBool q) \<Rightarrow> p = q
      | (JNumber x, JNumber y) \<Rightarrow> x = y
      | (JString s, JString t) \<Rightarrow> s = t
      | _ \<Rightarrow> False)"

fun map_get :: "pending \<Rightarrow> json \<Rightarrow> ClaudeCommand option" where
  "map_get [] k = None"
| "map_get ((k', v) # m) k = (if same_value_zero k' k then Some v else map_get m k)"

fun map_set :: "pending \<Rightarrow> json \<Rightarrow> ClaudeCommand \<Rightarrow> pending" where
  "map_set [] k v = [(k, v)]"
| "map_set ((k', v') # m) k v =
     (if same_value_zero k' k then (k', v) # m else (k', v') # map_set m k v)"

fun map_delete :: "pending \<Rightarrow> json \<Rightarrow> pending" where
  "map_delete [] k = []"
| "map_delete ((k', v) # m) k =
     (if same_value_zero k' k then m else (k', v) # map_delete m k)"

definition maxPendingEntries :: nat where
  "maxPendingEntries = 100"

text \<open>
  What the generators do, in order: a command given to the consumer (\<^verbatim>\<open>yield\<close>), or a
  message on the error channel (\<^verbatim>\<open>console.error\<close>).
\<close>

datatype error_type = JSON_syntax | parsing

datatype diagnostic =
    ErrorParsingLine nat jsstring error_type
  | ErrorReadingFile jsstring
  | ErrorReadingDirectory jsstring

datatype event = Yield ClaudeCommand | ConsoleError diagnostic

definition commands_of :: "event list \<Rightarrow> ClaudeCommand list" where
  "commands_of evs = concat (map (\<lambda>ev. case ev of Yield c \<Rightarrow> [c] | ConsoleError d \<Rightarrow> []) evs)"

definition diagnostics_of :: "event list \<Rightarrow> diagnostic list" where
  "diagnostics_of evs = concat (map (\<lambda>ev. case ev of Yield c \<Rightarrow> [] | ConsoleError d \<Rightarrow> [d]) evs)"

section \<open>Event extractors\<close>

text \<open>\<^verbatim>\<open>entry.message?.content\<close>, for an entry that is not \<^verbatim>\<open>null\<close>.\<close>

definition message_content :: "json \<Rightarrow> json option" where
  "message_content entry = get_optional (get entry (js ''message'')) (js ''content'')"

subsection \<open>createClaudeCommand\<close>

text \<open>
  The body runs inside \<^verbatim>\<open>try\<close>; whatever it throws makes the result \<^verbatim>\<open>null\<close>. The
  object literal evaluates \<^verbatim>\<open>timestamp\<close> first, then \<^verbatim>\<open>normalizeBashCommand(command)\<close>,
  which throws unless \<^verbatim>\<open>command\<close> is a string (nothing else has a callable
  \<^verbatim>\<open>split\<close>). \<^verbatim>\<open>success\<close> is not set.
\<close>

definition createClaudeCommand :: "json \<Rightarrow> json \<Rightarrow> source \<Rightarrow> ClaudeCommand option" where
  "createClaudeCommand block entry src =
     (case get_optional (get block (js ''input'')) (js ''command'') of
        None \<Rightarrow> None
      | Some c \<Rightarrow>
          if \<not> truthy c then None
          else
            (case (case get_checked entry (js ''timestamp'') of
                     Inl e \<Rightarrow> Inl e
                   | Inr None \<Rightarrow> Inr DateNow
                   | Inr (Some t) \<Rightarrow> if truthy t then new_Date t else Inr DateNow) of
               Inl e \<Rightarrow> None
             | Inr ts \<Rightarrow>
                 (case c of
                    JString s \<Rightarrow>
                      Some \<lparr> timestamp = ts,
                             command = normalizeBashCommand s,
                             source = src,
                             success = None,
                             description =
                               (let d = get_optional (get block (js ''input'')) (js ''description'')
                                in if truthy_opt d then d else None),
                             projectPath = get entry (js ''cwd'') \<rparr>
                  | _ \<Rightarrow> None)))"

subsection \<open>extractBashCommand, findBashToolBlock, extractToolUseId\<close>

text \<open>The callback \<^verbatim>\<open>(block) => block.type === 'tool_use' && block.name === 'Bash'\<close>.\<close>

definition isBashToolUse :: "json \<Rightarrow> exn + bool" where
  "isBashToolUse block =
     (case get_checked block (js ''type'') of
        Inl e \<Rightarrow> Inl e
      | Inr t \<Rightarrow> Inr (t = Some (JString (js ''tool_use'')) \<and>
                      get block (js ''name'') = Some (JString (js ''Bash''))))"

definition findBashToolBlock :: "json \<Rightarrow> exn + json option" where
  "findBashToolBlock content = array_find content isBashToolUse"

definition extractBashCommand :: "json \<Rightarrow> exn + ClaudeCommand option" where
  "extractBashCommand entry =
     (case get_checked entry (js ''type'') of
        Inl e \<Rightarrow> Inl e
      | Inr t \<Rightarrow>
          if t \<noteq> Some (JString (js ''assistant'')) \<or> \<not> truthy_opt (message_content entry)
          then Inr None
          else
            (case message_content entry of
               None \<Rightarrow> Inr None
             | Some content \<Rightarrow>
                 (case findBashToolBlock content of
                    Inl e \<Rightarrow> Inl e
                  | Inr None \<Rightarrow> Inr None
                  | Inr (Some bashBlock) \<Rightarrow> Inr (createClaudeCommand bashBlock entry Bash))))"

text \<open>\<^verbatim>\<open>bashBlock?.id || null\<close>: a falsy id, the empty string among them, is no id.\<close>

definition extractToolUseId :: "json \<Rightarrow> exn + json option" where
  "extractToolUseId entry =
     (case get_checked entry (js ''type'') of
        Inl e \<Rightarrow> Inl e
      | Inr t \<Rightarrow>
          if t \<noteq> Some (JString (js ''assistant'')) \<or> \<not> truthy_opt (message_content entry)
          then Inr None
          else
            (case message_content entry of
               None \<Rightarrow> Inr None
             | Some content \<Rightarrow>
                 (case findBashToolBlock content of
                    Inl e \<Rightarrow> Inl e
                  | Inr bashBlock \<Rightarrow>
                      (let i = get_optional bashBlock (js ''id'')
                       in Inr (if truthy_opt i then i else None)))))"

subsection \<open>extractToolResult\<close>

text \<open>The callback \<^verbatim>\<open>(block) => block.type === 'tool_result' && block.tool_use_id\<close>.\<close>

definition isToolResult :: "json \<Rightarrow> exn + bool" where
  "isToolResult block =
     (case get_checked block (js ''type'') of
        Inl e \<Rightarrow> Inl e
      | Inr t \<Rightarrow> Inr (t = Some (JString (js ''tool_result'')) \<and>
                      truthy_opt (get block (js ''tool_use_id''))))"

text \<open>
  The result is the pair of \<^verbatim>\<open>tool_use_id\<close> and \<^verbatim>\<open>is_error\<close>, the latter
  \<^verbatim>\<open>toolResult.is_error ?? false\<close>.
\<close>

definition extractToolResult :: "json \<Rightarrow> exn + (json \<times> json) option" where
  "extractToolResult entry =
     (case get_checked entry (js ''type'') of
        Inl e \<Rightarrow> Inl e
      | Inr t \<Rightarrow>
          if t \<noteq> Some (JString (js ''user'')) \<or> \<not> truthy_opt (message_content entry)
          then Inr None
          else
            (case message_content entry of
               None \<Rightarrow> Inr None
             | Some (JString text) \<Rightarrow> Inr None
             | Some content \<Rightarrow>
                 (case array_find content isToolResult of
                    Inl e \<Rightarrow> Inl e
                  | Inr toolResult \<Rightarrow>
                      (let i = get_optional toolResult (js ''tool_use_id'')
                       in if truthy_opt i
                          then Inr (map_option
                                 (\<lambda>tool_use_id.
                                    (tool_use_id,
                                     case get_optional toolResult (js ''is_error'') of
                                       None \<Rightarrow> JBool False
                                     | Some JNull \<Rightarrow> JBool False
                                     | Some is_error \<Rightarrow> is_error)) i)
                          else Inr None))))"

subsection \<open>extractUserCommand, findUserCommand\<close>

definition isLineTerminator :: "nat \<Rightarrow> bool" where
  "isLineTerminator c \<longleftrightarrow> c = 0x0A \<or> c = 0x0D \<or> c = 0x2028 \<or> c = 0x2029"

text \<open>
  The regular expression \<^verbatim>\<open>/<bash-input>(.*?)<\/bash-input>/\<close>. \<open>lazy_dot_until\<close> is
  \<^verbatim>\<open>(.*?)\<close> followed by the closing tag, tried at one position: the shortest run of code
  units other than line terminators after which the closing tag stands. \<open>regex_match\<close> tries
  the positions of the text from the left and gives the first capture.
\<close>

fun lazy_dot_until :: "jsstring \<Rightarrow> jsstring \<Rightarrow> jsstring option" where
  "lazy_dot_until close [] = (if close = [] then Some [] else None)"
| "lazy_dot_until close (c # cs) =
     (if startsWith (c # cs) close then Some []
      else if isLineTerminator c then None
      else map_option (Cons c) (lazy_dot_until close cs))"

fun regex_match :: "jsstring \<Rightarrow> jsstring option" where
  "regex_match [] = None"
| "regex_match (c # cs) =
     (case (if startsWith (c # cs) (js ''<bash-input>'')
            then lazy_dot_until (js ''</bash-input>'') (drop 12 (c # cs))
            else None) of
        Some inner \<Rightarrow> Some inner
      | None \<Rightarrow> regex_match cs)"

definition findUserCommand :: "jsstring \<Rightarrow> jsstring option" where
  "findUserCommand content = map_option trim (regex_match content)"

definition extractUserCommand :: "json \<Rightarrow> exn + ClaudeCommand option" where
  "extractUserCommand entry =
     (case get_checked entry (js ''type'') of
        Inl e \<Rightarrow> Inl e
      | Inr t \<Rightarrow>
          if t \<noteq> Some (JString (js ''user'')) \<or> \<not> truthy_opt (message_content entry)
          then Inr None
          else
            (case message_content entry of
               Some (JString content) \<Rightarrow>
                 (case findUserCommand content of
                    None \<Rightarrow> Inr None
                  | Some cmd \<Rightarrow>
                      if cmd = [] then Inr None
                      else Inr (createClaudeCommand
                                  (JObject [(js ''input'', JObject [(js ''command'', JString cmd)])])
                                  entry User))
             | _ \<Rightarrow> Inr None))"

section \<open>The stream parser\<close>

subsection \<open>lineContainsCommands\<close>

definition lineContainsCommands :: "jsstring \<Rightarrow> bool" where
  "lineContainsCommands line \<longleftrightarrow>
     includes_str line ([0x22] @ js ''Bash'' @ [0x22]) \<or>
     includes_str line ([0x22] @ js ''tool_result'' @ [0x22]) \<or>
     includes_str line (js ''<bash-input>'')"

subsection \<open>flushPendingCommands, cleanupOldPendingCommands\<close>

definition flushPendingCommands :: "pending \<Rightarrow> pending \<times> event list" where
  "flushPendingCommands p = ([], map (\<lambda>(k, c). Yield (c\<lparr>success := Some True\<rparr>)) p)"

definition cleanupOldPendingCommands :: "pending \<Rightarrow> pending \<times> event list" where
  "cleanupOldPendingCommands p =
     (if length p > maxPendingEntries then flushPendingCommands p else (p, []))"

subsection \<open>processEntry\<close>

text \<open>
  The three parts of the \<^verbatim>\<open>try\<close> block, each from the pending table to the new table
  and the events, or to the exception that leaves the block.
\<close>

definition handleBashToolUse :: "pending \<Rightarrow> json \<Rightarrow> exn + (pending \<times> event list)" where
  "handleBashToolUse p entry =
     (case extractBashCommand entry of
        Inl e \<Rightarrow> Inl e
      | Inr None \<Rightarrow> Inr (p, [])
      | Inr (Some bashCommand) \<Rightarrow>
          (case extractToolUseId entry of
             Inl e \<Rightarrow> Inl e
           | Inr (Some toolUseId) \<Rightarrow> Inr (map_set p toolUseId bashCommand, [])
           | Inr None \<Rightarrow> Inr (p, [Yield (bashCommand\<lparr>success := Some True\<rparr>)])))"

definition handleToolResult :: "pending \<Rightarrow> json \<Rightarrow> exn + (pending \<times> event list)" where
  "handleToolResult p entry =
     (case extractToolResult entry of
        Inl e \<Rightarrow> Inl e
      | Inr None \<Rightarrow> Inr (p, [])
      | Inr (Some (tool_use_id, is_error)) \<Rightarrow>
          (case map_get p tool_use_id of
             Some cmd \<Rightarrow>
               Inr (map_delete p tool_use_id, [Yield (cmd\<lparr>success := Some (\<not> truthy is_error)\<rparr>)])
           | None \<Rightarrow> Inr (p, [])))"

definition handleUserCommand :: "json \<Rightarrow> exn + event list" where
  "handleUserCommand entry =
     (case extractUserCommand entry of
        Inl e \<Rightarrow> Inl e
      | Inr None \<Rightarrow> Inr []
      | Inr (Some userCommand) \<Rightarrow> Inr [Yield (userCommand\<lparr>success := Some True\<rparr>)])"

text \<open>
  An exception ends the \<^verbatim>\<open>try\<close> block where it is thrown: what was yielded and stored
  before stays, and the \<^verbatim>\<open>catch\<close> writes one message.
\<close>

definition processEntry :: "pending \<Rightarrow> jsstring \<Rightarrow> nat \<Rightarrow> jsstring \<Rightarrow> pending \<times> event list" where
  "processEntry p line lineNumber filePath =
     (case JSON_parse line of
        None \<Rightarrow> (p, [ConsoleError (ErrorParsingLine lineNumber filePath JSON_syntax)])
      | Some entry \<Rightarrow>
          (case handleBashToolUse p entry of
             Inl e \<Rightarrow> (p, [ConsoleError (ErrorParsingLine lineNumber filePath parsing)])
           | Inr (p1, out1) \<Rightarrow>
               (case handleToolResult p1 entry of
                  Inl e \<Rightarrow> (p1, out1 @ [ConsoleError (ErrorParsingLine lineNumber filePath parsing)])
                | Inr (p2, out2) \<Rightarrow>
                    (case handleUserCommand entry of
                       Inl e \<Rightarrow>
                         (p2, out1 @ out2 @
                              [ConsoleError (ErrorParsingLine lineNumber filePath parsing)])
                     | Inr out3 \<Rightarrow> (p2, out1 @ out2 @ out3)))))"

subsection \<open>processLines\<close>

text \<open>
  The loop over the lines of one file, from the table and the two counters before a line.
  Both \<^verbatim>\<open>continue\<close> statements skip the rest of the body, the periodic cleanup included.
\<close>

fun processLines_from ::
  "pending \<Rightarrow> nat \<Rightarrow> nat \<Rightarrow> jsstring \<Rightarrow> jsstring list \<Rightarrow> pending \<times> event list" where
  "processLines_from p lineNumber entryCount filePath [] = (p, [])"
| "processLines_from p lineNumber entryCount filePath (line # rest) =
     (if trim line = [] then
        processLines_from p (lineNumber + 1) (entryCount + 1) filePath rest
      else if \<not> lineContainsCommands line then
        processLines_from p (lineNumber + 1) (entryCount + 1) filePath rest
      else
        (let (p1, out1) = processEntry p line (lineNumber + 1) filePath;
             (p2, out2) =
               (if (entryCount + 1) mod maxPendingEntries = 0
                then cleanupOldPendingCommands p1 else (p1, []));
             (p3, out3) = processLines_from p2 (lineNumber + 1) (entryCount + 1) filePath rest
         in (p3, out1 @ out2 @ out3)))"

definition processLines :: "pending \<Rightarrow> jsstring list \<Rightarrow> jsstring \<Rightarrow> pending \<times> event list" where
  "processLines p rl filePath = processLines_from p 0 0 filePath rl"

subsection \<open>createFileStream\<close>

text \<open>
  The second argument is what reading the file delivers: its lines, or \<open>None\<close> when the
  file cannot be read, which the outer \<^verbatim>\<open>catch\<close> reports.
\<close>

definition createFileStream ::
  "pending \<Rightarrow> jsstring list option \<Rightarrow> jsstring \<Rightarrow> pending \<times> event list" where
  "createFileStream p file filePath =
     (case file of
        None \<Rightarrow> (p, [ConsoleError (ErrorReadingFile filePath)])
      | Some rl \<Rightarrow>
          (let (p1, out1) = processLines p rl filePath;
               (p2, out2) = flushPendingCommands p1
           in (p2, out1 @ out2)))"

subsection \<open>createProjectStream\<close>

text \<open>
  A directory entry: the name \<^verbatim>\<open>readdir\<close> lists, the modification time \<^verbatim>\<open>stat\<close>
  gives (\<^verbatim>\<open>mtime.getTime()\<close>, whole milliseconds; \<open>None\<close> when \<^verbatim>\<open>stat\<close> fails), and
  the lines of the file (\<open>None\<close> when it cannot be read).
\<close>

record dir_entry =
  entry_name :: jsstring
  entry_mtime :: "int option"
  entry_lines :: "jsstring list option"

text \<open>\<^verbatim>\<open>join(projectPath, file)\<close> (the parameter \<^verbatim>\<open>projectPath\<close> is \<open>projectDir\<close> here), without the normalisation \<^verbatim>\<open>node:path\<close> adds.\<close>

definition join_path :: "jsstring \<Rightarrow> jsstring \<Rightarrow> jsstring" where
  "join_path dir file = dir @ js ''/'' @ file"

text \<open>The loop \<^verbatim>\<open>for (const { path: filePath } of fileStats)\<close>.\<close>

fun streamFiles :: "pending \<Rightarrow> jsstring \<Rightarrow> dir_entry list \<Rightarrow> pending \<times> event list" where
  "streamFiles p projectDir [] = (p, [])"
| "streamFiles p projectDir (f # fs) =
     (let (p1, out1) = createFileStream p (entry_lines f) (join_path projectDir (entry_name f));
          (p2, out2) = streamFiles p1 projectDir fs
      in (p2, out1 @ out2))"

text \<open>
  The second argument is what \<^verbatim>\<open>readdir\<close> delivers (\<open>None\<close> when it fails). A failing
  \<^verbatim>\<open>stat\<close> rejects \<^verbatim>\<open>Promise.all\<close>, which the \<^verbatim>\<open>catch\<close> reports. \<^verbatim>\<open>Array.prototype.sort\<close>
  is stable, as \<open>sort_key\<close> is.
\<close>

definition createProjectStream ::
  "pending \<Rightarrow> dir_entry list option \<Rightarrow> jsstring \<Rightarrow> pending \<times> event list" where
  "createProjectStream p dir projectDir =
     (case dir of
        None \<Rightarrow> (p, [ConsoleError (ErrorReadingDirectory projectDir)])
      | Some files \<Rightarrow>
          (let jsonlFiles = filter (\<lambda>f. endsWith (entry_name f) (js ''.jsonl'')) files
           in if list_ex (\<lambda>f. entry_mtime f = None) jsonlFiles
              then (p, [ConsoleError (ErrorReadingDirectory projectDir)])
              else streamFiles p projectDir
                     (sort_key (\<lambda>f. the (entry_mtime f)) jsonlFiles)))"

text \<open>\<^verbatim>\<open>createResilientCommandStream\<close>: a new parser, whose pending table is empty.\<close>

definition createResilientCommandStream :: "dir_entry list option \<Rightarrow> jsstring \<Rightarrow> event list" where
  "createResilientCommandStream dir projectDir = snd (createProjectStream [] dir projectDir)"

section \<open>Predicates on tables and events\<close>

text \<open>Every command of the pending table came from a Bash tool use.\<close>

definition only_bash_pending :: "pending \<Rightarrow> bool" where
  "only_bash_pending p \<longleftrightarrow> (\<forall>(k, c) \<in> set p. source c = Bash)"

text \<open>Every command of source \<open>User\<close> among the events has \<open>success = true\<close>.\<close>

definition user_commands_successful :: "event list \<Rightarrow> bool" where
  "user_commands_successful evs \<longleftrightarrow>
     (\<forall>c. Yield c \<in> set evs \<and> source c = User \<longrightarrow> success c = Some True)"

section \<open>Example log lines\<close>

text \<open>
  The tool-use line of the specification's example,
  \<^verbatim>\<open>{"type":"assistant","message":{"content":[{"type":"tool_use","name":"Bash","id":"t1","input":{"command":"ls -la\n"}}]}}\<close>
  (code unit \<open>0x5C\<close> is the backslash), and the command it holds.
\<close>

definition ex_use_line :: jsstring where
  \<open>ex_use_line =
     js ''{"type":"assistant","message":{"content":[{"type":"tool_use","name":"Bash","id":"t1","input":{"command":"ls -la''
     @ [0x5C] @ js ''n"}}]}}''\<close>

definition ex_command :: ClaudeCommand where
  "ex_command =
     \<lparr> timestamp = DateNow, command = js ''ls -la'', source = Bash, success = None,
       description = None, projectPath = None \<rparr>"

text \<open>Its result line, and the same result reporting an error.\<close>

definition ex_result_line :: jsstring where
  \<open>ex_result_line =
     js ''{"type":"user","message":{"content":[{"type":"tool_result","tool_use_id":"t1","is_error":false}]}}''\<close>

definition ex_error_line :: jsstring where
  \<open>ex_error_line =
     js ''{"type":"user","message":{"content":[{"type":"tool_result","tool_use_id":"t1","is_error":true}]}}''\<close>

text \<open>The tool-use line without an \<^verbatim>\<open>id\<close>, and with the empty \<^verbatim>\<open>id\<close>.\<close>

definition ex_no_id_line :: jsstring where
  \<open>ex_no_id_line =
     js ''{"type":"assistant","message":{"content":[{"type":"tool_use","name":"Bash","input":{"command":"ls -la"}}]}}''\<close>

definition ex_empty_id_line :: jsstring where
  \<open>ex_empty_id_line =
     js ''{"type":"assistant","message":{"content":[{"type":"tool_use","name":"Bash","id":"","input":{"command":"ls -la"}}]}}''\<close>

text \<open>
  A command the user typed; a line whose tag is empty; and the first line again with the
  \<^verbatim>\<open><\<close> of the opening tag written as the escape \<^verbatim>\<open><\<close>, as JSON allows.
\<close>

definition ex_user_line :: jsstring where
  \<open>ex_user_line = js ''{"type":"user","message":{"content":"<bash-input>ls -la</bash-input>"}}''\<close>

definition ex_user_command :: ClaudeCommand where
  "ex_user_command =
     \<lparr> timestamp = DateNow, command = js ''ls -la'', source = User, success = None,
       description = None, projectPath = None \<rparr>"

definition ex_empty_tag_line :: jsstring where
  \<open>ex_empty_tag_line = js ''{"type":"user","message":{"content":"<bash-input></bash-input>"}}''\<close>

definition ex_escaped_line :: jsstring where
  \<open>ex_escaped_line =
     js ''{"type":"user","message":{"content":"'' @ [0x5C] @ js ''u003cbash-input>ls -la</bash-input>"}}''\<close>

text \<open>Two lines that are not JSON, the second with a marker the line classifier looks for.\<close>

definition ex_malformed_line :: jsstring where
  \<open>ex_malformed_line = js ''{"type":"assistant","message":''\<close>

definition ex_malformed_marked_line :: jsstring where
  \<open>ex_malformed_marked_line = js ''{"type":"assistant","name":"Bash",''\<close>

text \<open>The entries these lines decode to.\<close>

definition bash_block :: "(jsstring \<times> json) list \<Rightarrow> json" where
  "bash_block kvs =
     JObject ([(js ''type'', JString (js ''tool_use'')), (js ''name'', JString (js ''Bash''))] @ kvs @
              [(js ''input'', JObject [(js ''command'', JString (js ''ls -la''))])])"

definition assistant_entry :: "json \<Rightarrow> json" where
  "assistant_entry block =
     JObject [(js ''type'', JString (js ''assistant'')),
              (js ''message'', JObject [(js ''content'', JArray [block])])]"

definition ex_use_entry :: json where
  "ex_use_entry =
     assistant_entry (JObject
       [(js ''type'', JString (js ''tool_use'')), (js ''name'', JString (js ''Bash'')),
        (js ''id'', JString (js ''t1'')),
        (js ''input'', JObject [(js ''command'', JString (js ''ls -la'' @ [0x0A]))])])"

definition ex_no_id_entry :: json where
  "ex_no_id_entry = assistant_entry (bash_block [])"

definition ex_empty_id_entry :: json where
  "ex_empty_id_entry = assistant_entry (bash_block [(js ''id'', JString [])])"

definition result_entry :: "bool \<Rightarrow> json" where
  "result_entry is_error =
     JObject [(js ''type'', JString (js ''user'')),
              (js ''message'', JObject [(js ''content'', JArray [JObject
                 [(js ''type'', JString (js ''tool_result'')),
                  (js ''tool_use_id'', JString (js ''t1'')),
                  (js ''is_error'', JBool is_error)]])])]"

definition user_entry :: "jsstring \<Rightarrow> json" where
  "user_entry text =
     JObject [(js ''type'', JString (js ''user'')),
              (js ''message'', JObject [(js ''content'', JString text)])]"

text \<open>
  Tool-use lines with identifiers of their own: line \<open>k\<close> has as its \<^verbatim>\<open>id\<close> the two
  small letters numbered \<open>k div 26\<close> and \<open>k mod 26\<close> (\<^verbatim>\<open>aa\<close>, \<^verbatim>\<open>ab\<close>, ...), so the
  lines below 676 differ in their identifiers.
\<close>

definition numbered_id :: "nat \<Rightarrow> jsstring" where
  "numbered_id k = [0x61 + k div 26, 0x61 + k mod 26]"

definition numbered_use_line :: "nat \<Rightarrow> jsstring" where
  \<open>numbered_use_line k =
     js ''{"type":"assistant","message":{"content":[{"type":"tool_use","name":"Bash","id":"''
     @ numbered_id k @ js ''","input":{"command":"ls -la"}}]}}''\<close>

definition numbered_use_entry :: "nat \<Rightarrow> json" where
  "numbered_use_entry k = assistant_entry (bash_block [(js ''id'', JString (numbered_id k))])"

text \<open>
  A file of 202 lines: an empty line, 198 tool-use lines, an empty line (the 200th line
  of the file), and two more tool-use lines (the second is the 200th line that is
  decoded).
\<close>

definition ex_long_file :: "jsstring list" where
  "ex_long_file =
     [[]] @ map numbered_use_line [0..<198] @ [[]] @ map numbered_use_line [198..<200]"

section \<open>Properties\<close>

subsection \<open>Strings\<close>

lemma split_on_nonempty: "split_on sep s \<noteq> []"
  by (induction s) (auto split: list.splits)

lemma split_on_no_sep: "l \<in> set (split_on sep s) \<Longrightarrow> sep \<notin> set l"
proof (induction s arbitrary: l)
  case Nil
  then show ?case by simp
next
  case (Cons c cs)
  show ?case
  proof (cases "c = sep")
    case True
    with Cons show ?thesis by auto
  next
    case False
    obtain h t where ht: "split_on sep cs = h # t"
      using split_on_nonempty [of sep cs] by (cases "split_on sep cs") auto
    with False Cons.prems have "l = c # h \<or> l \<in> set t" by auto
    then show ?thesis
    proof
      assume "l = c # h"
      moreover have "sep \<notin> set h" using Cons.IH [of h] ht by simp
      ultimately show ?thesis using False by auto
    next
      assume "l \<in> set t"
      then show ?thesis using Cons.IH [of l] ht by simp
    qed
  qed
qed

lemma split_on_without_sep: "sep \<notin> set s \<Longrightarrow> split_on sep s = [s]"
  by (induction s) auto

lemma set_trim: "set (trim s) \<subseteq> set s"
proof -
  have "set (trim s) = set (dropWhile isWhiteSpace (rev (dropWhile isWhiteSpace s)))"
    by (simp add: trim_def)
  also have "\<dots> \<subseteq> set (rev (dropWhile isWhiteSpace s))"
    by (rule set_dropWhileD [THEN subsetI])
  also have "\<dots> \<subseteq> set s"
    using set_dropWhileD [of _ isWhiteSpace s] by auto
  finally show ?thesis .
qed

lemma rev_dropWhile_rev_prefix:
  "d = rev (dropWhile P (rev d)) @ rev (takeWhile P (rev d))"
proof -
  have "rev d = takeWhile P (rev d) @ dropWhile P (rev d)" by simp
  then have "rev (rev d) = rev (takeWhile P (rev d) @ dropWhile P (rev d))" by (rule arg_cong)
  then show ?thesis by (simp only: rev_rev_ident rev_append)
qed

lemma trim_hd: "trim s \<noteq> [] \<Longrightarrow> \<not> isWhiteSpace (hd (trim s))"
proof -
  assume ne: "trim s \<noteq> []"
  let ?d = "dropWhile isWhiteSpace s"
  have t: "trim s = rev (dropWhile isWhiteSpace (rev ?d))" by (simp add: trim_def)
  have "?d = trim s @ rev (takeWhile isWhiteSpace (rev ?d))"
    unfolding t by (rule rev_dropWhile_rev_prefix)
  then have "hd ?d = hd (trim s)" "?d \<noteq> []"
    using ne by (metis hd_append2, metis append_is_Nil_conv)
  then show ?thesis using hd_dropWhile [of isWhiteSpace s] by simp
qed

lemma trim_last: "trim s \<noteq> [] \<Longrightarrow> \<not> isWhiteSpace (last (trim s))"
proof -
  assume ne: "trim s \<noteq> []"
  let ?e = "dropWhile isWhiteSpace (rev (dropWhile isWhiteSpace s))"
  have "?e \<noteq> []" using ne by (simp add: trim_def)
  then have "\<not> isWhiteSpace (hd ?e)" by (rule hd_dropWhile)
  moreover have "last (trim s) = hd ?e"
    using \<open>?e \<noteq> []\<close> by (simp add: trim_def last_rev)
  ultimately show ?thesis by simp
qed

lemma trim_fixed:
  assumes "s \<noteq> []" "\<not> isWhiteSpace (hd s)" "\<not> isWhiteSpace (last s)"
  shows "trim s = s"
proof -
  have d: "dropWhile isWhiteSpace s = s"
    using assms(1,2) by (cases s) auto
  have "rev s \<noteq> []" "\<not> isWhiteSpace (hd (rev s))"
    using assms by (auto simp: hd_rev)
  then have "dropWhile isWhiteSpace (rev s) = rev s"
    by (cases "rev s") auto
  with d show ?thesis by (simp add: trim_def)
qed

lemma join_props:
  assumes "ls \<noteq> []" "\<forall>l \<in> set ls. l \<noteq> []"
  shows "join sep ls \<noteq> [] \<and> hd (join sep ls) = hd (hd ls) \<and> last (join sep ls) = last (last ls)"
  using assms
proof (induction sep ls rule: join.induct)
  case (1 sep)
  then show ?case by simp
next
  case (2 sep x)
  then show ?case by simp
next
  case (3 sep x y ys)
  then have "join sep (y # ys) \<noteq> []" "last (join sep (y # ys)) = last (last (y # ys))" "x \<noteq> []"
    by auto
  then show ?case by simp
qed

lemma set_join: "set (join sep ls) \<subseteq> set sep \<union> \<Union> (set ` set ls)"
  by (induction sep ls rule: join.induct) auto

subsection \<open>The model of \<^verbatim>\<open>JSON.parse\<close> is total\<close>

text \<open>
  Every token is at least one code unit long, and the fuel \<open>JSON_parse\<close> gives the parser
  is never used up: \<open>None\<close> from \<open>JSON_parse\<close> always stands for a syntax error.
\<close>

lemma lex_string_shorter: "lex_string cs = Some (s, rest) \<Longrightarrow> length rest < length cs"
proof (induction cs arbitrary: s rule: lex_string.induct)
  case 1
  then show ?case by simp
next
  case (2 c cs)
  show ?case
  proof (cases "c = 0x22")
    case True
    then show ?thesis using "2.prems" by simp
  next
    case nq: False
    show ?thesis
    proof (cases "c = 0x5C")
      case False
      then obtain s' where "lex_string cs = Some (s', rest)"
        using nq "2.prems" by (auto split: if_splits)
      then have "length rest < length cs" using "2.IH"(3) nq False
        by (cases "c < 0x20") (use "2.prems" nq False in auto)
      then show ?thesis by simp
    next
      case True
      then obtain e r where cs: "cs = e # r" using "2.prems" by (cases cs) auto
      show ?thesis
      proof (cases "e = 0x75")
        case u: True
        then obtain x s' where "hex4 (take 4 r) = Some x" "lex_string (drop 4 r) = Some (s', rest)"
          using "2.prems" True cs by (auto split: option.splits)
        then have "length rest < length (drop 4 r)"
          using "2.IH"(1) [OF nq True cs u] by simp
        then show ?thesis using cs by simp
      next
        case nu: False
        then obtain x s' where "unescape e = Some x" "lex_string r = Some (s', rest)"
          using "2.prems" True cs by (auto split: option.splits)
        then have "length rest < length r"
          using "2.IH"(2) [OF nq True cs nu] by simp
        then show ?thesis using cs by simp
      qed
    qed
  qed
qed

lemma lex_int_part_shorter: "lex_int_part cs = Some (ds, r) \<Longrightarrow> length r < length cs"
  by (cases cs) (auto simp: lex_int_part_def less_Suc_eq_le length_dropWhile_le split: if_splits)

lemma lex_frac_part_shorter: "lex_frac_part cs = Some (fs, r) \<Longrightarrow> length r \<le> length cs"
  by (cases cs) (auto simp: lex_frac_part_def le_SucI length_dropWhile_le split: if_splits)

lemma lex_exp_part_shorter:
  assumes a: "lex_exp_part cs = Some (e, r)"
  shows "length r \<le> length cs"
proof (cases cs)
  case Nil
  then show ?thesis using a by (simp add: lex_exp_part_def)
next
  case (Cons c t)
  show ?thesis
  proof (cases "c = 0x65 \<or> c = 0x45")
    case False
    then show ?thesis using a Cons by (auto simp: lex_exp_part_def)
  next
    case True
    obtain neg r' where n: "(case t of [] \<Rightarrow> (False, t)
        | sg # r'' \<Rightarrow> if sg = 0x2D then (True, r'') else if sg = 0x2B then (False, r'') else (False, t)) = (neg, r')"
      by (cases "(case t of [] \<Rightarrow> (False, t)
        | sg # r'' \<Rightarrow> if sg = 0x2D then (True, r'') else if sg = 0x2B then (False, r'') else (False, t))")
    then have "length r' \<le> length t" by (cases t) (auto split: if_splits)
    moreover have "r = dropWhile isDigit r'"
      using a Cons True n by (auto simp: lex_exp_part_def split: if_splits)
    ultimately show ?thesis
      using Cons length_dropWhile_le [of isDigit r'] by simp
  qed
qed

lemma lex_number_shorter: "lex_number cs = Some (x, r) \<Longrightarrow> length r < length cs"
proof -
  assume a: "lex_number cs = Some (x, r)"
  obtain neg r0 where n: "(case cs of [] \<Rightarrow> (False, cs) | c # t \<Rightarrow> if c = 0x2D then (True, t) else (False, cs)) = (neg, r0)"
    by (cases "(case cs of [] \<Rightarrow> (False, cs) | c # t \<Rightarrow> if c = 0x2D then (True, t) else (False, cs))")
  then have l0: "length r0 \<le> length cs" by (cases cs) (auto split: if_splits)
  from a n obtain ds r1 fs r2 e where
    "lex_int_part r0 = Some (ds, r1)" "lex_frac_part r1 = Some (fs, r2)" "lex_exp_part r2 = Some (e, r)"
    by (auto simp: lex_number_def split: option.splits)
  then have "length r1 < length r0" "length r2 \<le> length r1" "length r \<le> length r2"
    by (auto dest: lex_int_part_shorter lex_frac_part_shorter lex_exp_part_shorter)
  with l0 show ?thesis by simp
qed

lemma lex_token_shorter: "lex_token cs = Some (t, rest) \<Longrightarrow> length rest < length cs"
proof (cases cs)
  case Nil
  assume "lex_token cs = Some (t, rest)"
  then show ?thesis using Nil by (simp add: lex_token_def)
next
  case (Cons c r)
  assume a: "lex_token cs = Some (t, rest)"
  have kw: "\<And>w. w \<noteq> [] \<Longrightarrow> startsWith cs w \<Longrightarrow> length (drop (length w) cs) < length cs"
    using Cons by simp
  consider (punct) "rest = r"
    | (str) s where "lex_string r = Some (s, rest)"
    | (num) x where "lex_number cs = Some (x, rest)"
    | (kw4) "rest = drop 4 cs" | (kw5) "rest = drop 5 cs"
    using a Cons by (auto simp: lex_token_def split: if_splits)
  then show ?thesis
  proof cases
    case punct
    then show ?thesis using Cons by simp
  next
    case str
    then show ?thesis using Cons lex_string_shorter by fastforce
  next
    case num
    then show ?thesis by (rule lex_number_shorter)
  next
    case kw4
    then show ?thesis using Cons by simp
  next
    case kw5
    then show ?thesis using Cons by simp
  qed
qed

text \<open>So the guard in \<open>tokenize\<close> always holds, and the equation without it is:\<close>

lemma tokenize_Cons:
  "tokenize (c # r) =
     (if isJsonSpace c then tokenize r
      else (case lex_token (c # r) of
              None \<Rightarrow> None
            | Some (t, rest) \<Rightarrow> map_option (Cons t) (tokenize rest)))"
  using lex_token_shorter [of "c # r"] by (auto split: option.splits)


lemma parse_shorter:
  "(parse_value n ts = Parsed v r \<longrightarrow> length r < length ts) \<and>
   (parse_elements n es ts = Parsed v r \<longrightarrow> length r < length ts) \<and>
   (parse_members n ms ts = Parsed v r \<longrightarrow> length r < length ts)"
proof (induction n arbitrary: ts es ms v r)
  case 0
  then show ?case by simp
next
  case (Suc n)
  have val: "parse_value (Suc n) ts = Parsed v r \<longrightarrow> length r < length ts"
  proof
    assume a: "parse_value (Suc n) ts = Parsed v r"
    then obtain t ts' where ts: "ts = t # ts'" by (cases ts) auto
    consider (scalar) "r = ts'"
      | (empty) t' where "ts' = t' # r"
      | (arr) "parse_elements n [] ts' = Parsed v r"
      | (obj) "parse_members n [] ts' = Parsed v r"
      using a ts by (auto split: token.splits list.splits)
    then show "length r < length ts"
      using ts Suc.IH [where ts = ts' and v = v and r = r and es = "[]" and ms = "[]"] by cases auto
  qed
  have els: "parse_elements (Suc n) es ts = Parsed v r \<longrightarrow> length r < length ts"
  proof
    assume a: "parse_elements (Suc n) es ts = Parsed v r"
    then obtain x t r1 where p: "parse_value n ts = Parsed x (t # r1)"
      by (auto split: presult.splits list.splits token.splits)
    then have l: "length (t # r1) < length ts" using Suc.IH [where ts = ts and v = x and r = "t # r1" and es = "[]" and ms = "[]"] by simp
    consider (comma) "parse_elements n (es @ [x]) r1 = Parsed v r" | (closing) "r = r1"
      using a p by (auto split: token.splits)
    then show "length r < length ts"
      using l Suc.IH [where ts = r1 and v = v and r = r and es = "es @ [x]" and ms = "[]"] by cases auto
  qed
  have mem: "parse_members (Suc n) ms ts = Parsed v r \<longrightarrow> length r < length ts"
  proof
    assume a: "parse_members (Suc n) ms ts = Parsed v r"
    then obtain k r0 where ts: "ts = TString k # TColon # r0"
      by (auto split: list.splits token.splits)
    then obtain x t r1 where p: "parse_value n r0 = Parsed x (t # r1)"
      using a by (auto split: presult.splits list.splits token.splits)
    then have l: "length (t # r1) < length r0" using Suc.IH [where ts = r0 and v = x and r = "t # r1" and es = "[]" and ms = "[]"] by simp
    consider (comma) "parse_members n (ms @ [(k, x)]) r1 = Parsed v r" | (closing) "r = r1"
      using a ts p by (auto split: token.splits)
    then show "length r < length ts"
      using l ts Suc.IH [where ts = r1 and v = v and r = r and ms = "ms @ [(k, x)]" and es = "[]"] by cases auto
  qed
  from val els mem show ?case by blast
qed

lemma parse_fuel:
  "(2 * length ts < n \<longrightarrow> parse_value n ts \<noteq> OutOfFuel) \<and>
   (2 * length ts + 1 < n \<longrightarrow> parse_elements n es ts \<noteq> OutOfFuel) \<and>
   (2 * length ts + 1 < n \<longrightarrow> parse_members n ms ts \<noteq> OutOfFuel)"
proof (induction n arbitrary: ts es ms)
  case 0
  then show ?case by simp
next
  case (Suc n)
  have val: "2 * length ts < Suc n \<longrightarrow> parse_value (Suc n) ts \<noteq> OutOfFuel"
  proof
    assume f: "2 * length ts < Suc n"
    show "parse_value (Suc n) ts \<noteq> OutOfFuel"
    proof (cases ts)
      case Nil
      then show ?thesis by simp
    next
      case (Cons t ts')
      then have "2 * length ts' + 1 < n" using f by simp
      then have "parse_elements n [] ts' \<noteq> OutOfFuel" "parse_members n [] ts' \<noteq> OutOfFuel"
        using Suc.IH [where ts = ts'] by auto
      then show ?thesis using Cons by (auto split: token.splits list.splits)
    qed
  qed
  have els: "2 * length ts + 1 < Suc n \<longrightarrow> parse_elements (Suc n) es ts \<noteq> OutOfFuel"
  proof
    assume f: "2 * length ts + 1 < Suc n"
    then have v: "parse_value n ts \<noteq> OutOfFuel" using Suc.IH [where ts = ts] by simp
    show "parse_elements (Suc n) es ts \<noteq> OutOfFuel"
    proof (cases "parse_value n ts")
      case (Parsed x r)
      then have "length r < length ts" using parse_shorter [of n ts x r] by simp
      then have "\<And>t r1. r = t # r1 \<Longrightarrow> 2 * length r1 + 1 < n"
        using f by auto
      then have "\<And>t r1 es'. r = t # r1 \<Longrightarrow> parse_elements n es' r1 \<noteq> OutOfFuel"
        using Suc.IH by blast
      then show ?thesis using Parsed by (auto split: list.splits token.splits)
    next
      case SyntaxError
      then show ?thesis by simp
    next
      case OutOfFuel
      then show ?thesis using v by simp
    qed
  qed
  have mem: "2 * length ts + 1 < Suc n \<longrightarrow> parse_members (Suc n) ms ts \<noteq> OutOfFuel"
  proof
    assume f: "2 * length ts + 1 < Suc n"
    show "parse_members (Suc n) ms ts \<noteq> OutOfFuel"
    proof (cases "\<exists>k r0. ts = TString k # TColon # r0")
      case False
      then show ?thesis by (auto split: list.splits token.splits)
    next
      case True
      then obtain k r0 where ts: "ts = TString k # TColon # r0" by blast
      then have v: "parse_value n r0 \<noteq> OutOfFuel" using f Suc.IH [where ts = r0] by simp
      show ?thesis
      proof (cases "parse_value n r0")
        case (Parsed x r)
        then have "length r < length r0" using parse_shorter [of n r0 x r] by simp
        then have "\<And>t r1 ms'. r = t # r1 \<Longrightarrow> 2 * length r1 + 1 < n"
          using f ts by auto
        then have "\<And>t r1 ms'. r = t # r1 \<Longrightarrow> parse_members n ms' r1 \<noteq> OutOfFuel"
          using Suc.IH by blast
        then show ?thesis using Parsed ts by (auto split: list.splits token.splits)
      next
        case SyntaxError
        then show ?thesis using ts by simp
      next
        case OutOfFuel
        then show ?thesis using v by simp
      qed
    qed
  qed
  from val els mem show ?case by blast
qed

lemma parse_value_fuel: "parse_value (2 * length ts + 1) ts \<noteq> OutOfFuel"
  using parse_fuel [of ts "2 * length ts + 1"] by simp

subsection \<open>A blank line is not JSON\<close>

lemma whitespace_range: "isWhiteSpace c \<Longrightarrow> c \<le> 0x20 \<or> 0xA0 \<le> c"
  unfolding isWhiteSpace_def by linarith

lemma whitespace_no_token:
  assumes "isWhiteSpace c" "\<not> isJsonSpace c"
  shows "lex_token (c # r) = None"
proof -
  have r: "c < 0x20 \<or> 0xA0 \<le> c"
    using whitespace_range [OF assms(1)] assms(2) by (auto simp: isJsonSpace_def)
  then have "c \<noteq> 0x7B" "c \<noteq> 0x7D" "c \<noteq> 0x5B" "c \<noteq> 0x5D" "c \<noteq> 0x3A" "c \<noteq> 0x2C"
    "c \<noteq> 0x22" "c \<noteq> 0x2D" "\<not> isDigit c" "c \<noteq> 0x74" "c \<noteq> 0x66" "c \<noteq> 0x6E"
    by (auto simp: isDigit_def)
  then show ?thesis by (simp add: lex_token_def js_def)
qed

lemma tokenize_blank: "\<forall>c \<in> set cs. isWhiteSpace c \<Longrightarrow> tokenize cs = None \<or> tokenize cs = Some []"
proof (induction cs)
  case Nil
  then show ?case by simp
next
  case (Cons c cs)
  then show ?case
    by (cases "isJsonSpace c") (simp_all add: whitespace_no_token)
qed

lemma dropWhile_all: "dropWhile P xs = [] \<Longrightarrow> \<forall>x \<in> set xs. P x"
  by (induction xs) (auto split: if_splits)

lemma blank_line_no_parse: "trim line = [] \<Longrightarrow> JSON_parse line = None"
proof -
  assume "trim line = []"
  then have "dropWhile isWhiteSpace (rev (dropWhile isWhiteSpace line)) = []"
    by (simp add: trim_def)
  then have "\<forall>x \<in> set (rev (dropWhile isWhiteSpace line)). isWhiteSpace x"
    by (rule dropWhile_all)
  then have "dropWhile isWhiteSpace line = []"
    using hd_dropWhile [of isWhiteSpace line] by (cases "dropWhile isWhiteSpace line") auto 
  then have "\<forall>x \<in> set line. isWhiteSpace x" by (rule dropWhile_all)
  then have "tokenize line = None \<or> tokenize line = Some []" by (rule tokenize_blank)
  then show ?thesis by (auto simp: JSON_parse_def)
qed

lemma parsed_line_not_blank: "JSON_parse line = Some e \<Longrightarrow> trim line \<noteq> []"
  using blank_line_no_parse by fastforce

subsection \<open>Which extractor answers for which entry\<close>

lemma extractBashCommand_Some_type:
  "extractBashCommand e = Inr (Some c) \<Longrightarrow> get_checked e (js ''type'') = Inr (Some (JString (js ''assistant'')))"
  by (auto simp: extractBashCommand_def split: sum.splits if_splits option.splits)

lemma extractToolResult_Some_type:
  "extractToolResult e = Inr (Some r) \<Longrightarrow>
     get_checked e (js ''type'') = Inr (Some (JString (js ''user''))) \<and>
     (\<forall>s. message_content e \<noteq> Some (JString s))"
  by (auto simp: extractToolResult_def split: sum.splits if_splits option.splits json.splits)

lemma extractUserCommand_Some_type:
  "extractUserCommand e = Inr (Some c) \<Longrightarrow>
     get_checked e (js ''type'') = Inr (Some (JString (js ''user''))) \<and>
     (\<exists>s. message_content e = Some (JString s))"
  by (auto simp: extractUserCommand_def split: sum.splits if_splits option.splits json.splits)

lemma js_assistant_neq_user: "js ''assistant'' \<noteq> js ''user''"
  by (simp add: js_def)

lemma assistant_no_result:
  "get_checked e (js ''type'') = Inr (Some (JString (js ''assistant''))) \<Longrightarrow>
     extractToolResult e = Inr None \<and> extractUserCommand e = Inr None"
  by (simp add: extractToolResult_def extractUserCommand_def js_assistant_neq_user)

lemma user_no_bash:
  "get_checked e (js ''type'') = Inr (Some (JString (js ''user''))) \<Longrightarrow>
     extractBashCommand e = Inr None \<and> extractToolUseId e = Inr None"
  using js_assistant_neq_user by (simp add: extractBashCommand_def extractToolUseId_def)

lemma result_no_user:
  "extractToolResult e = Inr (Some r) \<Longrightarrow> extractUserCommand e = Inr None"
  by (auto simp: extractToolResult_def extractUserCommand_def split: sum.splits if_splits option.splits json.splits)

lemma user_no_result:
  "extractUserCommand e = Inr (Some c) \<Longrightarrow> extractToolResult e = Inr None"
  by (auto simp: extractToolResult_def extractUserCommand_def split: sum.splits if_splits option.splits json.splits)

lemma processEntry_bash_no_id:
  assumes "JSON_parse line = Some entry" "extractBashCommand entry = Inr (Some c)"
    "extractToolUseId entry = Inr None"
  shows "processEntry p line n f = (p, [Yield (c\<lparr>success := Some True\<rparr>)])"
  using assms assistant_no_result [OF extractBashCommand_Some_type [OF assms(2)]]
  by (simp add: processEntry_def handleBashToolUse_def handleToolResult_def handleUserCommand_def)

lemma processEntry_bash_with_id:
  assumes "JSON_parse line = Some entry" "extractBashCommand entry = Inr (Some c)"
    "extractToolUseId entry = Inr (Some i)"
  shows "processEntry p line n f = (map_set p i c, [])"
  using assms assistant_no_result [OF extractBashCommand_Some_type [OF assms(2)]]
  by (simp add: processEntry_def handleBashToolUse_def handleToolResult_def handleUserCommand_def)

lemma processEntry_result_found:
  assumes "JSON_parse line = Some entry" "extractToolResult entry = Inr (Some (i, b))"
    "map_get p i = Some c"
  shows "processEntry p line n f = (map_delete p i, [Yield (c\<lparr>success := Some (\<not> truthy b)\<rparr>)])"
  using assms user_no_bash [of entry] extractToolResult_Some_type [OF assms(2)] result_no_user [OF assms(2)]
  by (simp add: processEntry_def handleBashToolUse_def handleToolResult_def handleUserCommand_def)

lemma processEntry_result_missing:
  assumes "JSON_parse line = Some entry" "extractToolResult entry = Inr (Some (i, b))"
    "map_get p i = None"
  shows "processEntry p line n f = (p, [])"
  using assms user_no_bash [of entry] extractToolResult_Some_type [OF assms(2)] result_no_user [OF assms(2)]
  by (simp add: processEntry_def handleBashToolUse_def handleToolResult_def handleUserCommand_def)

lemma processEntry_user:
  assumes "JSON_parse line = Some entry" "extractUserCommand entry = Inr (Some c)"
  shows "processEntry p line n f = (p, [Yield (c\<lparr>success := Some True\<rparr>)])"
  using assms user_no_bash [of entry] extractUserCommand_Some_type [OF assms(2)] user_no_result [OF assms(2)]
  by (simp add: processEntry_def handleBashToolUse_def handleToolResult_def handleUserCommand_def)

lemma processEntry_syntax_error:
  "JSON_parse line = None \<Longrightarrow>
     processEntry p line n f = (p, [ConsoleError (ErrorParsingLine n f JSON_syntax)])"
  by (simp add: processEntry_def)

lemma same_value_zero_eq: "same_value_zero a b \<Longrightarrow> a = b"
  by (auto simp: same_value_zero_def split: json.splits)

lemma map_get_map_set: "same_value_zero k k \<Longrightarrow> map_get (map_set p k v) k = Some v"
  by (induction p) (auto dest: same_value_zero_eq)

subsection \<open>The loop over the lines\<close>

lemma processLines_from_skip:
  "trim line = [] \<or> \<not> lineContainsCommands line \<Longrightarrow>
     processLines_from p lno ec f (line # rest) = processLines_from p (lno + 1) (ec + 1) f rest"
  by auto

lemma processLines_from_step:
  assumes "trim line \<noteq> []" "lineContainsCommands line"
    "processEntry p line (lno + 1) f = (p1, out1)"
    "(if (ec + 1) mod maxPendingEntries = 0 then cleanupOldPendingCommands p1 else (p1, [])) = (p2, out2)"
    "processLines_from p2 (lno + 1) (ec + 1) f rest = (p3, out3)"
  shows "processLines_from p lno ec f (line # rest) = (p3, out1 @ out2 @ out3)"
  using assms by simp

subsection \<open>The example lines decoded\<close>

lemmas eval_defs =
  js_def ex_use_entry_def ex_command_def assistant_entry_def bash_block_def result_entry_def
  user_entry_def ex_user_command_def ex_no_id_entry_def ex_empty_id_entry_def
  extractBashCommand_def extractToolUseId_def extractToolResult_def extractUserCommand_def
  createClaudeCommand_def findBashToolBlock_def array_find_def isBashToolUse_def isToolResult_def
  get_checked_def get_def get_optional_def message_content_def truthy_def truthy_opt_def
  new_Date_def normalizeBashCommand_def trim_def isWhiteSpace_def findUserCommand_def
  isLineTerminator_def

lemma ex_use_line_parse: "JSON_parse ex_use_line = Some ex_use_entry"
  by code_simp

lemma ex_use_entry_command: "extractBashCommand ex_use_entry = Inr (Some ex_command)"
  by (simp add: eval_defs)

lemma ex_use_entry_id: "extractToolUseId ex_use_entry = Inr (Some (JString (js ''t1'')))"
  by (simp add: eval_defs)

lemma ex_use_line_marked: "lineContainsCommands ex_use_line"
  by code_simp

lemma ex_result_line_parse: "JSON_parse ex_result_line = Some (result_entry False)"
  by code_simp

lemma ex_error_line_parse: "JSON_parse ex_error_line = Some (result_entry True)"
  by code_simp

lemma result_entry_result:
  "extractToolResult (result_entry b) = Inr (Some (JString (js ''t1''), JBool b))"
  by (simp add: eval_defs)

lemma ex_result_line_marked: "lineContainsCommands ex_result_line"
  by code_simp

lemma ex_error_line_marked: "lineContainsCommands ex_error_line"
  by code_simp

lemma ex_no_id_line_parse: "JSON_parse ex_no_id_line = Some ex_no_id_entry"
  by code_simp

lemma ex_empty_id_line_parse: "JSON_parse ex_empty_id_line = Some ex_empty_id_entry"
  by code_simp

lemma ex_user_line_parse:
  "JSON_parse ex_user_line = Some (user_entry (js ''<bash-input>ls -la</bash-input>''))"
  by code_simp

lemma ex_user_entry_command:
  "extractUserCommand (user_entry (js ''<bash-input>ls -la</bash-input>'')) = Inr (Some ex_user_command)"
  by (simp add: eval_defs)

lemma ex_malformed_line_parse: "JSON_parse ex_malformed_line = None"
  by code_simp

lemma ex_malformed_marked_line_parse: "JSON_parse ex_malformed_marked_line = None"
  by code_simp

subsection \<open>Normalisation\<close>

text \<open>
  Claim C8. Normalising a command text twice gives the same text as normalising it once:
  \<open>normalizeBashCommand (normalizeBashCommand x) = normalizeBashCommand x\<close> for every
  string \<open>x\<close>.
\<close>

theorem normalizeBashCommand_idempotent:
  "normalizeBashCommand (normalizeBashCommand x) = normalizeBashCommand x"
proof -
  let ?ls = "filter (\<lambda>line. length line > 0) (map trim (split_on 0x0A x))"
  let ?r = "join [0x5C, 0x6E] ?ls"
  have r: "normalizeBashCommand x = ?r" by (simp add: normalizeBashCommand_def)
  show ?thesis
  proof (cases "?ls = []")
    case True
    then have "?r = []" by simp
    then show ?thesis by (simp add: r normalizeBashCommand_def trim_def)
  next
    case False
    have ne: "\<forall>l \<in> set ?ls. l \<noteq> []" by auto
    have edge: "\<forall>l \<in> set ?ls. \<not> isWhiteSpace (hd l) \<and> \<not> isWhiteSpace (last l)"
      using trim_hd trim_last by auto
    have nolf: "\<forall>l \<in> set ?ls. 0x0A \<notin> set l"
      using split_on_no_sep set_trim by fastforce
    from join_props [OF False ne, of "[0x5C, 0x6E]"]
    have r_ne: "?r \<noteq> []" and r_hd: "hd ?r = hd (hd ?ls)" and r_last: "last ?r = last (last ?ls)"
      by blast+
    have "hd ?ls \<in> set ?ls" "last ?ls \<in> set ?ls" using False by (auto simp del: set_filter)
    with edge r_hd r_last have "\<not> isWhiteSpace (hd ?r)" "\<not> isWhiteSpace (last ?r)"
      by (auto simp del: set_filter)
    with r_ne have t: "trim ?r = ?r" by (rule trim_fixed)
    have "0x0A \<notin> set ?r"
      using set_join [of "[0x5C, 0x6E]" ?ls] nolf by (auto simp del: set_filter)
    then have "split_on 0x0A ?r = [?r]" by (rule split_on_without_sep)
    with t r_ne show ?thesis by (simp add: r normalizeBashCommand_def)
  qed
qed

subsection \<open>The pending table and the loop\<close>

lemma processLines_from_skipped:
  "\<forall>l \<in> set ls. trim l = [] \<or> \<not> lineContainsCommands l \<Longrightarrow>
     processLines_from p lno ec f (ls @ rest) =
     processLines_from p (lno + length ls) (ec + length ls) f rest"
  by (induction ls arbitrary: lno ec) auto

lemma processLines_from_all_skipped:
  "\<forall>l \<in> set ls. trim l = [] \<or> \<not> lineContainsCommands l \<Longrightarrow>
     processLines_from p lno ec f ls = (p, [])"
  using processLines_from_skipped [of ls p lno ec f "[]"] by simp

lemma cleanup_small: "length p \<le> maxPendingEntries \<Longrightarrow> cleanupOldPendingCommands p = (p, [])"
  by (simp add: cleanupOldPendingCommands_def)

lemma extractToolResult_truthy_id:
  "extractToolResult e = Inr (Some (i, b)) \<Longrightarrow> truthy i"
  by (auto simp: extractToolResult_def Let_def truthy_opt_def split: sum.splits if_splits option.splits json.splits)

lemma extractToolUseId_empty:
  assumes "extractBashCommand entry = Inr (Some c)"
    and "message_content entry = Some content"
    and "findBashToolBlock content = Inr (Some block)"
    and "get block (js ''id'') = Some (JString [])"
  shows "extractToolUseId entry = Inr None"
proof -
  have t: "get_checked entry (js ''type'') = Inr (Some (JString (js ''assistant'')))"
    using assms(1) by (rule extractBashCommand_Some_type)
  have c: "truthy_opt (message_content entry)"
    using assms(1) t by (auto simp: extractBashCommand_def split: if_splits)
  have "block \<noteq> JNull" using assms(4) by (auto simp: get_def)
  then have "get_optional (Some block) (js ''id'') = Some (JString [])"
    using assms(4) by (cases block) (simp_all add: get_optional_def)
  then show ?thesis
    using t c assms(2,3) by (simp add: extractToolUseId_def truthy_opt_def truthy_def)
qed

lemma two_line_file:
  assumes "JSON_parse l1 = Some e1" "extractBashCommand e1 = Inr (Some c)"
    "extractToolUseId e1 = Inr (Some i)"
    "JSON_parse l2 = Some e2" "extractToolResult e2 = Inr (Some (i', b))"
    "same_value_zero i i'" "lineContainsCommands l1" "lineContainsCommands l2"
  shows "processLines_from [] lno ec f [l1, l2] = ([], [Yield (c\<lparr>success := Some (\<not> truthy b)\<rparr>)])"
proof -
  have ii: "i' = i" using assms(6) by (auto dest: same_value_zero_eq)
  have s1: "processEntry [] l1 (lno + 1) f = ([(i, c)], [])"
    using processEntry_bash_with_id [OF assms(1-3), of "[]"] by simp
  have g: "map_get [(i, c)] i' = Some c" using assms(6) ii by simp
  have s2: "processEntry [(i, c)] l2 (lno + 1 + 1) f = ([], [Yield (c\<lparr>success := Some (\<not> truthy b)\<rparr>)])"
    using processEntry_result_found [OF assms(4,5) g] assms(6) ii by simp
  have c1: "(if (ec + 1) mod maxPendingEntries = 0 then cleanupOldPendingCommands [(i, c)] else ([(i, c)], [])) = ([(i, c)], [])"
    by (simp add: cleanup_small maxPendingEntries_def)
  have c2: "(if (ec + 1 + 1) mod maxPendingEntries = 0 then cleanupOldPendingCommands [] else ([], [])) = ([], [])"
    by (simp add: cleanup_small)
  have r2: "processLines_from [(i, c)] (lno + 1) (ec + 1) f [l2] = ([], [Yield (c\<lparr>success := Some (\<not> truthy b)\<rparr>)])"
    using processLines_from_step [OF parsed_line_not_blank [OF assms(4)] assms(8) s2 c2, of "[]" "[]" "[]"]
    by simp
  show ?thesis
    using processLines_from_step [OF parsed_line_not_blank [OF assms(1)] assms(7) s1 c1 r2] by simp
qed

lemma one_command_file:
  assumes "JSON_parse line = Some entry" "extractBashCommand entry = Inr (Some c)"
    "extractToolUseId entry = Inr (Some i)" "lineContainsCommands line"
    "\<forall>l \<in> set pre \<union> set post. trim l = [] \<or> \<not> lineContainsCommands l"
  shows "processLines_from [] 0 0 f (pre @ [line] @ post) = ([(i, c)], [])"
proof -
  let ?k = "length pre"
  have s1: "processEntry [] line (?k + 1) f = ([(i, c)], [])"
    using processEntry_bash_with_id [OF assms(1-3), of "[]"] by simp
  have c1: "(if (?k + 1) mod maxPendingEntries = 0 then cleanupOldPendingCommands [(i, c)]
             else ([(i, c)], [])) = ([(i, c)], [])"
    by (simp add: cleanup_small maxPendingEntries_def)
  have r: "processLines_from [(i, c)] (?k + 1) (?k + 1) f post = ([(i, c)], [])"
    using assms(5) by (intro processLines_from_all_skipped) auto
  have "processLines_from [] ?k ?k f (line # post) = ([(i, c)], [])"
    using processLines_from_step [OF parsed_line_not_blank [OF assms(1)] assms(4) s1 c1 r] by simp
  moreover have "processLines_from [] 0 0 f (pre @ line # post) =
                 processLines_from [] (0 + ?k) (0 + ?k) f (line # post)"
    using assms(5) by (intro processLines_from_skipped) auto
  ultimately show ?thesis by simp
qed

lemma malformed_then_pair_lines:
  assumes "JSON_parse l0 = None"
    and "JSON_parse l1 = Some e1" "extractBashCommand e1 = Inr (Some c)"
    "extractToolUseId e1 = Inr (Some i)"
    "JSON_parse l2 = Some e2" "extractToolResult e2 = Inr (Some (i', b))"
    "same_value_zero i i'" "lineContainsCommands l1" "lineContainsCommands l2"
  shows "processLines_from [] 0 0 f [l0, l1, l2] =
           ([], (if trim l0 \<noteq> [] \<and> lineContainsCommands l0
                 then [ConsoleError (ErrorParsingLine 1 f JSON_syntax)] else []) @
                [Yield (c\<lparr>success := Some (\<not> truthy b)\<rparr>)])"
proof (cases "trim l0 \<noteq> [] \<and> lineContainsCommands l0")
  case True
  have s0: "processEntry [] l0 (0 + 1) f = ([], [ConsoleError (ErrorParsingLine 1 f JSON_syntax)])"
    using processEntry_syntax_error [OF assms(1), of "[]" 1 f] by simp
  have c0: "(if (0 + 1) mod maxPendingEntries = 0 then cleanupOldPendingCommands [] else ([], [])) = ([], [])"
    by (simp add: maxPendingEntries_def)
  have r: "processLines_from [] (0 + 1) (0 + 1) f [l1, l2] =
             ([], [Yield (c\<lparr>success := Some (\<not> truthy b)\<rparr>)])"
    using assms(2-9) by (rule two_line_file)
  show ?thesis
    using processLines_from_step [OF _ _ s0 c0 r] True by simp
next
  case False
  then have "processLines_from [] 0 0 f (l0 # [l1, l2]) = processLines_from [] (0 + 1) (0 + 1) f [l1, l2]"
    by (intro processLines_from_skip) auto
  then show ?thesis
    using two_line_file [OF assms(2-9), of "0 + 1" "0 + 1" f] False by simp
qed

lemma same_t1: "same_value_zero (JString (js ''t1'')) (JString (js ''t1''))"
  by (simp add: same_value_zero_def)

lemma ex_malformed_marked_line_marked:
  "trim ex_malformed_marked_line \<noteq> [] \<and> lineContainsCommands ex_malformed_marked_line"
  by (simp add: lineContainsCommands_def ex_malformed_marked_line_def js_def trim_def isWhiteSpace_def)

lemma ex_malformed_line_unmarked: "\<not> lineContainsCommands ex_malformed_line"
  by (simp add: lineContainsCommands_def ex_malformed_line_def js_def)

subsection \<open>Commands of the user never wait in the table\<close>

lemma createClaudeCommand_source: "createClaudeCommand block e src = Some c \<Longrightarrow> source c = src"
  by (auto simp: createClaudeCommand_def split: option.splits if_splits sum.splits json.splits)

lemma extractBashCommand_source: "extractBashCommand e = Inr (Some c) \<Longrightarrow> source c = Bash"
  by (auto simp: extractBashCommand_def createClaudeCommand_source
      split: sum.splits if_splits option.splits)

lemma extractUserCommand_source: "extractUserCommand e = Inr (Some c) \<Longrightarrow> source c = User"
  by (auto simp: extractUserCommand_def createClaudeCommand_source
      split: sum.splits if_splits option.splits json.splits)

lemma map_get_in: "map_get p k = Some c \<Longrightarrow> c \<in> snd ` set p"
  by (induction p) (auto split: if_splits)

lemma map_set_subset: "snd ` set (map_set p k v) \<subseteq> insert v (snd ` set p)"
  by (induction p) (fastforce split: if_splits)+

lemma map_delete_subset: "set (map_delete p k) \<subseteq> set p"
  by (induction p) (auto split: if_splits)

lemma only_bash_pending_iff: "only_bash_pending p \<longleftrightarrow> (\<forall>c \<in> snd ` set p. source c = Bash)"
  by (auto simp: only_bash_pending_def)

lemma user_commands_successful_append:
  "user_commands_successful (xs @ ys) \<longleftrightarrow> user_commands_successful xs \<and> user_commands_successful ys"
  by (auto simp: user_commands_successful_def)

lemma user_commands_successful_Nil: "user_commands_successful []"
  by (simp add: user_commands_successful_def)

lemma user_commands_successful_log: "user_commands_successful [ConsoleError d]"
  by (simp add: user_commands_successful_def)

lemma handleBashToolUse_inv:
  assumes "handleBashToolUse p e = Inr (p1, out)" "only_bash_pending p"
  shows "only_bash_pending p1 \<and> user_commands_successful out"
proof (cases "extractBashCommand e")
  case (Inl x)
  then show ?thesis using assms by (simp add: handleBashToolUse_def)
next
  case (Inr r)
  show ?thesis
  proof (cases r)
    case None
    then show ?thesis using assms Inr by (simp add: handleBashToolUse_def user_commands_successful_Nil)
  next
    case (Some c)
    then have b: "source c = Bash" using Inr by (simp add: extractBashCommand_source)
    show ?thesis
    proof (cases "extractToolUseId e")
      case (Inl x)
      then show ?thesis using assms Inr Some by (simp add: handleBashToolUse_def)
    next
      case i: (Inr j)
      show ?thesis
      proof (cases j)
        case None
        then show ?thesis using assms Inr Some i b
          by (auto simp: handleBashToolUse_def user_commands_successful_def)
      next
        case (Some k)
        then have "p1 = map_set p k c" "out = []"
          using assms Inr \<open>r = Some c\<close> i by (auto simp: handleBashToolUse_def)
        moreover have "\<forall>x \<in> snd ` set (map_set p k c). source x = Bash"
          using assms(2) b map_set_subset [of p k c] unfolding only_bash_pending_iff by blast
        ultimately show ?thesis
          by (simp add: only_bash_pending_iff user_commands_successful_Nil)
      qed
    qed
  qed
qed

lemma handleToolResult_inv:
  assumes "handleToolResult p e = Inr (p1, out)" "only_bash_pending p"
  shows "only_bash_pending p1 \<and> user_commands_successful out"
proof (cases "extractToolResult e")
  case (Inl x)
  then show ?thesis using assms by (simp add: handleToolResult_def)
next
  case (Inr r)
  show ?thesis
  proof (cases r)
    case None
    then show ?thesis using assms Inr by (simp add: handleToolResult_def user_commands_successful_Nil)
  next
    case (Some ib)
    obtain i b where ib: "ib = (i, b)" by (cases ib)
    show ?thesis
    proof (cases "map_get p i")
      case None
      then show ?thesis using assms Inr Some ib
        by (simp add: handleToolResult_def user_commands_successful_Nil)
    next
      case c: (Some c)
      then have "source c = Bash" using assms(2) map_get_in [OF c] by (auto simp: only_bash_pending_iff)
      moreover have "p1 = map_delete p i" "out = [Yield (c\<lparr>success := Some (\<not> truthy b)\<rparr>)]"
        using assms Inr Some ib c by (auto simp: handleToolResult_def)
      ultimately show ?thesis
        using assms(2) map_delete_subset [of p i]
        by (auto simp: only_bash_pending_def user_commands_successful_def)
    qed
  qed
qed

lemma handleUserCommand_inv:
  "handleUserCommand e = Inr out \<Longrightarrow> user_commands_successful out"
  by (auto simp: handleUserCommand_def user_commands_successful_def split: sum.splits option.splits)

lemma processEntry_inv:
  assumes "processEntry p line n f = (p', out)" "only_bash_pending p"
  shows "only_bash_pending p' \<and> user_commands_successful out"
proof (cases "JSON_parse line")
  case None
  then show ?thesis using assms by (auto simp: processEntry_def user_commands_successful_log)
next
  case (Some e)
  show ?thesis
  proof (cases "handleBashToolUse p e")
    case (Inl x)
    then show ?thesis using assms Some by (auto simp: processEntry_def user_commands_successful_log)
  next
    case (Inr r1)
    obtain p1 o1 where r1: "r1 = (p1, o1)" by (cases r1)
    note h1 = handleBashToolUse_inv [OF Inr [unfolded r1] assms(2)]
    show ?thesis
    proof (cases "handleToolResult p1 e")
      case (Inl x)
      then show ?thesis using assms Some Inr r1 h1
        by (auto simp: processEntry_def user_commands_successful_append user_commands_successful_log)
    next
      case r: (Inr r2)
      obtain p2 o2 where r2: "r2 = (p2, o2)" by (cases r2)
      note h2 = handleToolResult_inv [OF r [unfolded r2] conjunct1 [OF h1]]
      show ?thesis
      proof (cases "handleUserCommand e")
        case (Inl x)
        then show ?thesis using assms Some Inr r1 h1 r r2 h2
          by (auto simp: processEntry_def user_commands_successful_append user_commands_successful_log)
      next
        case u: (Inr o3)
        then show ?thesis using assms Some Inr r1 h1 r r2 h2 handleUserCommand_inv [OF u]
          by (auto simp: processEntry_def user_commands_successful_append)
      qed
    qed
  qed
qed

lemma flushPendingCommands_inv:
  "flushPendingCommands p = (p', out) \<Longrightarrow> only_bash_pending p' \<and> user_commands_successful out"
  by (auto simp: flushPendingCommands_def only_bash_pending_def user_commands_successful_def)

lemma cleanupOldPendingCommands_inv:
  "cleanupOldPendingCommands p = (p', out) \<Longrightarrow> only_bash_pending p \<Longrightarrow>
     only_bash_pending p' \<and> user_commands_successful out"
  using flushPendingCommands_inv [of p p' out]
  by (auto simp: cleanupOldPendingCommands_def user_commands_successful_Nil split: if_splits)

lemma processLines_from_inv:
  "processLines_from p lno ec f ls = (p', out) \<Longrightarrow> only_bash_pending p \<Longrightarrow>
     only_bash_pending p' \<and> user_commands_successful out"
proof (induction ls arbitrary: p lno ec p' out)
  case Nil
  then show ?case by (simp add: user_commands_successful_Nil)
next
  case (Cons line rest)
  show ?case
  proof (cases "trim line = [] \<or> \<not> lineContainsCommands line")
    case True
    have "processLines_from p (lno + 1) (ec + 1) f rest = (p', out)"
      using Cons.prems(1) unfolding processLines_from_skip [OF True] .
    then show ?thesis using Cons.IH Cons.prems(2) by blast
  next
    case False
    obtain p1 o1 where e: "processEntry p line (lno + 1) f = (p1, o1)"
      by (cases "processEntry p line (lno + 1) f")
    obtain p2 o2 where c: "(if (ec + 1) mod maxPendingEntries = 0 then cleanupOldPendingCommands p1
                            else (p1, [])) = (p2, o2)"
      by (cases "(if (ec + 1) mod maxPendingEntries = 0 then cleanupOldPendingCommands p1 else (p1, []))")
    obtain p3 o3 where r: "processLines_from p2 (lno + 1) (ec + 1) f rest = (p3, o3)"
      by (cases "processLines_from p2 (lno + 1) (ec + 1) f rest")
    have t: "trim line \<noteq> []" and m: "lineContainsCommands line" using False by auto
    have eq: "p' = p3" "out = o1 @ o2 @ o3"
      using processLines_from_step [OF t m e c r] Cons.prems(1) by simp_all
    note i1 = processEntry_inv [OF e Cons.prems(2)]
    have i2: "only_bash_pending p2 \<and> user_commands_successful o2"
      using c i1 cleanupOldPendingCommands_inv [of p1 p2 o2]
      by (auto simp: user_commands_successful_Nil split: if_splits)
    note i3 = Cons.IH [OF r conjunct1 [OF i2]]
    show ?thesis using eq i1 i2 i3 by (simp add: user_commands_successful_append)
  qed
qed

lemma createFileStream_inv:
  assumes "createFileStream p file f = (p', out)" "only_bash_pending p"
  shows "only_bash_pending p' \<and> user_commands_successful out"
proof (cases "file")
  case None
  then show ?thesis using assms by (auto simp: createFileStream_def user_commands_successful_log)
next
  case (Some rl)
  obtain p1 o1 where l: "processLines_from p 0 0 f rl = (p1, o1)"
    by (cases "processLines_from p 0 0 f rl")
  obtain p2 o2 where fl: "flushPendingCommands p1 = (p2, o2)"
    by (cases "flushPendingCommands p1")
  have "p' = p2" "out = o1 @ o2"
    using assms(1) Some l fl by (auto simp: createFileStream_def processLines_def)
  then show ?thesis
    using processLines_from_inv [OF l assms(2)] flushPendingCommands_inv [OF fl]
    by (simp add: user_commands_successful_append)
qed

lemma streamFiles_inv:
  "streamFiles p d fs = (p', out) \<Longrightarrow> only_bash_pending p \<Longrightarrow>
     only_bash_pending p' \<and> user_commands_successful out"
proof (induction fs arbitrary: p p' out)
  case Nil
  then show ?case by (simp add: user_commands_successful_Nil)
next
  case (Cons x fs)
  obtain p1 o1 where a: "createFileStream p (entry_lines x) (join_path d (entry_name x)) = (p1, o1)"
    by (cases "createFileStream p (entry_lines x) (join_path d (entry_name x))")
  obtain p2 o2 where b: "streamFiles p1 d fs = (p2, o2)" by (cases "streamFiles p1 d fs")
  have "p' = p2" "out = o1 @ o2" using Cons.prems(1) a b by auto
  then show ?case
    using createFileStream_inv [OF a Cons.prems(2)] Cons.IH [OF b]
    by (simp add: user_commands_successful_append)
qed

lemma createResilientCommandStream_inv:
  "user_commands_successful (createResilientCommandStream dir d)"
proof -
  have e: "only_bash_pending []" by (simp add: only_bash_pending_def)
  obtain p' out where r: "createProjectStream [] dir d = (p', out)"
    by (cases "createProjectStream [] dir d")
  have "user_commands_successful out"
  proof (cases dir)
    case None
    then show ?thesis using r by (auto simp: createProjectStream_def user_commands_successful_log)
  next
    case (Some files)
    then show ?thesis
      using r streamFiles_inv [OF _ e, of d _ p' out]
      by (auto simp: createProjectStream_def Let_def user_commands_successful_log split: if_splits)
  qed
  then show ?thesis using r by (simp add: createResilientCommandStream_def)
qed

lemma ex_user_line_marked: "lineContainsCommands ex_user_line"
  by (simp add: lineContainsCommands_def ex_user_line_def js_def)

lemma ex_empty_tag_line_parse:
  "JSON_parse ex_empty_tag_line = Some (user_entry (js ''<bash-input></bash-input>''))"
  by code_simp

lemma ex_empty_tag_no_command:
  "extractUserCommand (user_entry (js ''<bash-input></bash-input>'')) = Inr None"
  by (simp add: eval_defs)

lemma user_entry_no_result: "extractToolResult (user_entry text) = Inr None"
  by (simp add: eval_defs)

lemma user_entry_content: "message_content (user_entry text) = Some (JString text)"
  by (simp add: eval_defs)

lemma user_entry_type: "get_checked (user_entry text) (js ''type'') = Inr (Some (JString (js ''user'')))"
  by (simp add: eval_defs)

lemma ex_file_with_user_command:
  "createResilientCommandStream
     (Some [\<lparr>entry_name = js ''a.jsonl'', entry_mtime = Some 1,
             entry_lines = Some [ex_error_line, ex_user_line, ex_error_line]\<rparr>]) (js ''p'') =
   [Yield (ex_user_command\<lparr>success := Some True\<rparr>)]"
proof -
  have g: "map_get [] (JString (js ''t1'')) = None" by simp
  have e: "\<And>n f. processEntry [] ex_error_line n f = ([], [])"
    using ex_error_line_parse result_entry_result g by (rule processEntry_result_missing)
  have u: "\<And>n f. processEntry [] ex_user_line n f = ([], [Yield (ex_user_command\<lparr>success := Some True\<rparr>)])"
    using ex_user_line_parse ex_user_entry_command by (rule processEntry_user)
  have t: "trim ex_error_line \<noteq> []" "trim ex_user_line \<noteq> []"
    using ex_error_line_parse ex_user_line_parse by (auto dest: parsed_line_not_blank)
  have "processLines_from [] 0 0 (join_path (js ''p'') (js ''a.jsonl''))
          [ex_error_line, ex_user_line, ex_error_line] =
        ([], [Yield (ex_user_command\<lparr>success := Some True\<rparr>)])"
    using e u t ex_error_line_marked ex_user_line_marked by (simp add: maxPendingEntries_def)
  then show ?thesis
    by (simp add: createResilientCommandStream_def createProjectStream_def createFileStream_def
        processLines_def flushPendingCommands_def endsWith_def js_def)
qed

subsection \<open>The files of a project\<close>

lemma commands_of_append: "commands_of (xs @ ys) = commands_of xs @ commands_of ys"
  by (simp add: commands_of_def)

lemma createFileStream_empties: "fst (createFileStream [] file f) = []"
  by (cases "file") (simp_all add: createFileStream_def flushPendingCommands_def split: prod.splits)

lemma streamFiles_Cons_fst:
  "fst (streamFiles p d (x # xs)) =
     fst (streamFiles (fst (createFileStream p (entry_lines x) (join_path d (entry_name x)))) d xs)"
  by (simp add: split_beta)

lemma streamFiles_Cons_snd:
  "snd (streamFiles p d (x # xs)) =
     snd (createFileStream p (entry_lines x) (join_path d (entry_name x))) @
     snd (streamFiles (fst (createFileStream p (entry_lines x) (join_path d (entry_name x)))) d xs)"
  by (simp add: split_beta)

lemma streamFiles_empties: "fst (streamFiles [] d fs) = []"
  by (induction fs) (simp_all only: streamFiles.simps(1) fst_conv streamFiles_Cons_fst createFileStream_empties)

lemma streamFiles_Cons:
  "snd (streamFiles [] d (x # xs)) =
     snd (createFileStream [] (entry_lines x) (join_path d (entry_name x))) @ snd (streamFiles [] d xs)"
  by (simp only: streamFiles_Cons_snd createFileStream_empties)

lemma streamFiles_append:
  "snd (streamFiles [] d (xs @ ys)) = snd (streamFiles [] d xs) @ snd (streamFiles [] d ys)"
proof (induction xs)
  case Nil
  then show ?case by simp
next
  case (Cons x xs)
  have "snd (streamFiles [] d ((x # xs) @ ys)) =
          snd (createFileStream [] (entry_lines x) (join_path d (entry_name x))) @
          snd (streamFiles [] d (xs @ ys))"
    by (simp only: append_Cons streamFiles_Cons)
  then show ?case by (simp only: Cons.IH streamFiles_Cons append_assoc)
qed

lemma sorted_before:
  assumes "sorted (map k xs)" "A \<in> set xs" "B \<in> set xs" "k A < (k B :: int)"
  shows "\<exists>l1 l2 l3. xs = l1 @ A # l2 @ B # l3"
proof -
  obtain ys zs where xs: "xs = ys @ A # zs" using assms(2) by (auto dest: split_list)
  have "B \<notin> set ys"
  proof
    assume "B \<in> set ys"
    then have "k B \<le> k A" using assms(1) xs by (auto simp: sorted_append)
    with assms(4) show False by simp
  qed
  moreover have "B \<noteq> A" using assms(4) by auto
  ultimately have "B \<in> set zs" using assms(3) xs by auto
  then obtain us vs where "zs = us @ B # vs" by (auto dest: split_list)
  with xs show ?thesis by blast
qed

lemma ex_use_file:
  "createFileStream [] (Some [ex_use_line]) f = ([], [Yield (ex_command\<lparr>success := Some True\<rparr>)])"
  using one_command_file [OF ex_use_line_parse ex_use_entry_command ex_use_entry_id ex_use_line_marked,
      of "[]" "[]" f]
  by (simp add: createFileStream_def processLines_def flushPendingCommands_def)

lemma ex_user_file:
  "createFileStream [] (Some [ex_user_line]) f = ([], [Yield (ex_user_command\<lparr>success := Some True\<rparr>)])"
proof -
  have "processEntry [] ex_user_line (0 + 1) f = ([], [Yield (ex_user_command\<lparr>success := Some True\<rparr>)])"
    using ex_user_line_parse ex_user_entry_command by (rule processEntry_user)
  then have "processLines_from [] 0 0 f [ex_user_line] =
               ([], [Yield (ex_user_command\<lparr>success := Some True\<rparr>)])"
    using parsed_line_not_blank [OF ex_user_line_parse] ex_user_line_marked
    by (simp add: maxPendingEntries_def)
  then show ?thesis
    by (simp add: createFileStream_def processLines_def flushPendingCommands_def)
qed

subsection \<open>A long file\<close>

lemma parse_use_tokens:
  "parse_value 71
     [TLBrace, TString k1, TColon, TString v1, TComma, TString k2, TColon, TLBrace,
      TString k3, TColon, TLBracket, TLBrace, TString k4, TColon, TString v4, TComma,
      TString k5, TColon, TString v5, TComma, TString k6, TColon, TString v6, TComma,
      TString k7, TColon, TLBrace, TString k8, TColon, TString v8,
      TRBrace, TRBrace, TRBracket, TRBrace, TRBrace] =
   Parsed (JObject [(k1, JString v1), (k2, JObject [(k3, JArray [JObject
     [(k4, JString v4), (k5, JString v5), (k6, JString v6), (k7, JObject [(k8, JString v8)])]])])]) []"
  by (simp add: eval_nat_numeral)

lemma two_letter_line_parse:
  assumes "0x61 \<le> a" "a \<le> 0x7A" "0x61 \<le> b" "b \<le> 0x7A"
  shows \<open>JSON_parse (js ''{"type":"assistant","message":{"content":[{"type":"tool_use","name":"Bash","id":"''
     @ [a, b] @ js ''","input":{"command":"ls -la"}}]}}'') =
     Some (assistant_entry (bash_block [(js ''id'', JString [a, b])]))\<close>
proof -
  have "a \<noteq> 0x22" "a \<noteq> 0x5C" "\<not> a < 0x20" "b \<noteq> 0x22" "b \<noteq> 0x5C" "\<not> b < 0x20"
    using assms by auto
  then show ?thesis
    by (simp add: JSON_parse_def lex_token_def isJsonSpace_def isDigit_def js_def
        assistant_entry_def bash_block_def parse_use_tokens)
qed

lemma numbered_letters:
  "k < 676 \<Longrightarrow> 0x61 \<le> 0x61 + k div 26 \<and> 0x61 + k div 26 \<le> 0x7A \<and>
     0x61 \<le> 0x61 + k mod 26 \<and> 0x61 + k mod 26 \<le> (0x7A::nat)"
  by presburger

lemma numbered_use_line_parse:
  "k < 676 \<Longrightarrow> JSON_parse (numbered_use_line k) = Some (numbered_use_entry k)"
  using two_letter_line_parse [of "0x61 + k div 26" "0x61 + k mod 26"] numbered_letters [of k]
  by (simp add: numbered_use_line_def numbered_use_entry_def numbered_id_def)

lemma numbered_use_entry_command:
  "extractBashCommand (numbered_use_entry k) = Inr (Some ex_command)"
  by (simp add: numbered_use_entry_def eval_defs)

lemma numbered_use_entry_id:
  "extractToolUseId (numbered_use_entry k) = Inr (Some (JString (numbered_id k)))"
  by (simp add: numbered_use_entry_def numbered_id_def eval_defs)

lemma numbered_use_line_marked: "lineContainsCommands (numbered_use_line k)"
  by (simp add: lineContainsCommands_def numbered_use_line_def js_def)

lemma numbered_id_inj: "k < 676 \<Longrightarrow> j < 676 \<Longrightarrow> numbered_id k = numbered_id j \<Longrightarrow> k = j"
  by (simp add: numbered_id_def) (metis div_mult_mod_eq)


lemma processEntry_numbered:
  "k < 676 \<Longrightarrow> processEntry p (numbered_use_line k) n f =
     (map_set p (JString (numbered_id k)) ex_command, [])"
  using numbered_use_line_parse numbered_use_entry_command numbered_use_entry_id
  by (rule processEntry_bash_with_id)

lemma length_map_set_le: "length (map_set p k v) \<le> Suc (length p)"
  by (induction p) auto

text \<open>The table after tool-use lines numbered \<open>ks\<close>.\<close>

lemma numbered_lines_run:
  assumes "\<forall>k \<in> set ks. k < 676"
    and "\<forall>j < length ks. (ec + j + 1) mod maxPendingEntries = 0 \<longrightarrow>
           length p + j + 1 \<le> maxPendingEntries"
  shows "processLines_from p lno ec f (map numbered_use_line ks @ rest) =
         processLines_from (foldl (\<lambda>p k. map_set p (JString (numbered_id k)) ex_command) p ks)
           (lno + length ks) (ec + length ks) f rest"
  using assms
proof (induction ks arbitrary: p lno ec)
  case Nil
  then show ?case by simp
next
  case (Cons k ks)
  let ?p1 = "map_set p (JString (numbered_id k)) ex_command"
  have k: "k < 676" using Cons.prems(1) by simp
  have e: "processEntry p (numbered_use_line k) (lno + 1) f = (?p1, [])"
    using k by (rule processEntry_numbered)
  have c: "(if (ec + 1) mod maxPendingEntries = 0 then cleanupOldPendingCommands ?p1 else (?p1, [])) =
           (?p1, [])"
  proof (cases "(ec + 1) mod maxPendingEntries = 0")
    case True
    then have "length p + 1 \<le> maxPendingEntries" using Cons.prems(2) by auto
    then have "length ?p1 \<le> maxPendingEntries"
      using length_map_set_le [of p "JString (numbered_id k)" ex_command] by simp
    then show ?thesis by (simp add: cleanup_small)
  next
    case False
    then show ?thesis by simp
  qed
  have ih: "processLines_from ?p1 (lno + 1) (ec + 1) f (map numbered_use_line ks @ rest) =
            processLines_from (foldl (\<lambda>p k. map_set p (JString (numbered_id k)) ex_command) ?p1 ks)
              (lno + 1 + length ks) (ec + 1 + length ks) f rest"
  proof (rule Cons.IH)
    show "\<forall>k \<in> set ks. k < 676" using Cons.prems(1) by simp
    show "\<forall>j < length ks. (ec + 1 + j + 1) mod maxPendingEntries = 0 \<longrightarrow>
            length ?p1 + j + 1 \<le> maxPendingEntries"
    proof (intro allI impI)
      fix j assume j: "j < length ks" and m: "(ec + 1 + j + 1) mod maxPendingEntries = 0"
      have "length p + Suc j + 1 \<le> maxPendingEntries"
        using Cons.prems(2) j m by (auto simp: add.commute add.left_commute)
      then show "length ?p1 + j + 1 \<le> maxPendingEntries"
        using length_map_set_le [of p "JString (numbered_id k)" ex_command] by simp
    qed
  qed
  obtain p3 o3 where r: "processLines_from ?p1 (lno + 1) (ec + 1) f (map numbered_use_line ks @ rest) = (p3, o3)"
    by (cases "processLines_from ?p1 (lno + 1) (ec + 1) f (map numbered_use_line ks @ rest)")
  have "processLines_from p lno ec f (numbered_use_line k # map numbered_use_line ks @ rest) = (p3, [] @ [] @ o3)"
    using parsed_line_not_blank [OF numbered_use_line_parse [OF k]] numbered_use_line_marked e c r
    by (rule processLines_from_step)
  then show ?case using r ih by simp
qed


lemma map_get_map_set_other:
  "\<not> same_value_zero k k' \<Longrightarrow> same_value_zero k k \<Longrightarrow>
     map_get (map_set p k v) k' = map_get p k'"
  by (induction p) (auto dest: same_value_zero_eq)

lemma length_map_set_new: "map_get p k = None \<Longrightarrow> length (map_set p k v) = Suc (length p)"
  by (induction p) (auto split: if_splits)

lemma numbered_table_length:
  assumes "distinct ks" "\<forall>k \<in> set ks. k < 676"
    and "\<forall>k \<in> set ks. map_get p (JString (numbered_id k)) = None"
  shows "length (foldl (\<lambda>p k. map_set p (JString (numbered_id k)) ex_command) p ks) =
         length p + length ks"
  using assms
proof (induction ks arbitrary: p)
  case Nil
  then show ?case by simp
next
  case (Cons k ks)
  let ?p1 = "map_set p (JString (numbered_id k)) ex_command"
  have l: "length ?p1 = Suc (length p)"
    using Cons.prems(3) by (simp add: length_map_set_new)
  have "\<forall>j \<in> set ks. map_get ?p1 (JString (numbered_id j)) = None"
  proof
    fix j assume j: "j \<in> set ks"
    then have "numbered_id k \<noteq> numbered_id j"
      using Cons.prems(1,2) numbered_id_inj [of k j] by auto
    then have "map_get ?p1 (JString (numbered_id j)) = map_get p (JString (numbered_id j))"
      by (intro map_get_map_set_other) (simp_all add: same_value_zero_def)
    then show "map_get ?p1 (JString (numbered_id j)) = None"
      using Cons.prems(3) j by simp
  qed
  then have "length (foldl (\<lambda>p k. map_set p (JString (numbered_id k)) ex_command) ?p1 ks) =
             length ?p1 + length ks"
    using Cons.prems(1,2) by (intro Cons.IH) auto
  then show ?case using l by simp
qed

lemma ex_long_file_take:
  "take 200 ex_long_file = [[]] @ map numbered_use_line [0..<198] @ [[]]"
  by (simp add: ex_long_file_def)

lemma ex_long_file_prefix_run:
  "processLines_from [] 0 0 f ([[]] @ map numbered_use_line [0..<198] @ [[]] @ rest) =
   processLines_from (foldl (\<lambda>p k. map_set p (JString (numbered_id k)) ex_command) [] [0..<198])
     200 200 f rest"
proof -
  have b: "trim [] = [] \<or> \<not> lineContainsCommands []" by (simp add: trim_def)
  have j: "\<forall>j < length [0..<198]. (1 + j + 1) mod maxPendingEntries = 0 \<longrightarrow>
             length ([] :: pending) + j + 1 \<le> maxPendingEntries"
    unfolding maxPendingEntries_def by (simp, presburger)
  have k: "\<forall>k \<in> set [0..<198]. k < (676::nat)" by simp
  have "processLines_from [] 0 0 f ([] # map numbered_use_line [0..<198] @ [[]] @ rest) =
        processLines_from [] (0 + 1) (0 + 1) f (map numbered_use_line [0..<198] @ [[]] @ rest)"
    using b by (rule processLines_from_skip)
  also have "\<dots> = processLines_from
                 (foldl (\<lambda>p k. map_set p (JString (numbered_id k)) ex_command) [] [0..<198])
                 (0 + 1 + length [0..<198]) (0 + 1 + length [0..<198]) f ([[]] @ rest)"
    using numbered_lines_run [OF k, of "0 + 1" "[]" "0 + 1" f "[[]] @ rest"] j by simp
  also have "\<dots> = processLines_from
                 (foldl (\<lambda>p k. map_set p (JString (numbered_id k)) ex_command) [] [0..<198])
                 200 200 f rest"
    using processLines_from_skip [OF b] by simp
  finally show ?thesis by simp
qed

subsection \<open>An escaped marker\<close>

lemma ex_escaped_line_parse:
  "JSON_parse ex_escaped_line = Some (user_entry (js ''<bash-input>ls -la</bash-input>''))"
  by code_simp

lemma ex_escaped_line_unmarked: "\<not> lineContainsCommands ex_escaped_line"
  by (simp add: lineContainsCommands_def ex_escaped_line_def js_def)

section \<open>The claims\<close>

text \<open>
  Claim C1, amended. When the line of a Bash tool use comes before the line of its tool
  result: processing the tool-use line stores the command under its identifier and emits
  nothing; and from every pending table that still holds the command under that
  identifier, processing the result line emits exactly that command, with \<open>success\<close>
  the negation of \<^verbatim>\<open>is_error\<close>, and removes it. A file of just these two lines gives
  exactly this one command.
\<close>

theorem use_then_result_resolves:
  assumes "JSON_parse l1 = Some e1"
    and "extractBashCommand e1 = Inr (Some c)"
    and "extractToolUseId e1 = Inr (Some i)"
    and "JSON_parse l2 = Some e2"
    and "extractToolResult e2 = Inr (Some (i', b))"
    and "same_value_zero i i'"
  shows "processEntry p l1 n1 f = (map_set p i c, []) \<and>
         map_get (map_set p i c) i' = Some c \<and>
         (\<forall>q. map_get q i' = Some c \<longrightarrow>
              processEntry q l2 n2 f =
                (map_delete q i', [Yield (c\<lparr>success := Some (\<not> truthy b)\<rparr>)])) \<and>
         (lineContainsCommands l1 \<and> lineContainsCommands l2 \<longrightarrow>
            createFileStream [] (Some [l1, l2]) f =
              ([], [Yield (c\<lparr>success := Some (\<not> truthy b)\<rparr>)]))"
proof (intro conjI allI impI)
  have ii: "i' = i" using assms(6) by (auto dest: same_value_zero_eq)
  show "processEntry p l1 n1 f = (map_set p i c, [])"
    using assms(1-3) by (rule processEntry_bash_with_id)
  show "map_get (map_set p i c) i' = Some c"
    using assms(6) ii by (simp add: map_get_map_set)
  show "processEntry q l2 n2 f = (map_delete q i', [Yield (c\<lparr>success := Some (\<not> truthy b)\<rparr>)])"
    if "map_get q i' = Some c" for q
    using assms(4,5) that by (rule processEntry_result_found)
  show "createFileStream [] (Some [l1, l2]) f = ([], [Yield (c\<lparr>success := Some (\<not> truthy b)\<rparr>)])"
    if "lineContainsCommands l1 \<and> lineContainsCommands l2"
    using two_line_file [OF assms, of 0 0 f] that
    by (simp add: createFileStream_def processLines_def flushPendingCommands_def)
qed

theorem use_then_result_resolves_witness:
  "createFileStream [] (Some [ex_use_line, ex_error_line]) (js ''a.jsonl'') =
     ([], [Yield (ex_command\<lparr>success := Some False\<rparr>)]) \<and>
   createFileStream [] (Some [ex_use_line, ex_result_line]) (js ''a.jsonl'') =
     ([], [Yield (ex_command\<lparr>success := Some True\<rparr>)])"
proof -
  have s: "same_value_zero (JString (js ''t1'')) (JString (js ''t1''))"
    by (simp add: same_value_zero_def)
  from use_then_result_resolves [OF ex_use_line_parse ex_use_entry_command ex_use_entry_id
      ex_error_line_parse result_entry_result s]
    use_then_result_resolves [OF ex_use_line_parse ex_use_entry_command ex_use_entry_id
      ex_result_line_parse result_entry_result s]
  show ?thesis
    using ex_use_line_marked ex_error_line_marked ex_result_line_marked by (simp add: truthy_def)
qed

text \<open>
  Claim C1 as stated fails when the result line comes first: the result finds nothing
  pending and is dropped, the command is flushed at the end of the file with
  \<open>success = true\<close>, though \<^verbatim>\<open>is_error\<close> is true.
\<close>

theorem result_before_use_counterexample:
  "JSON_parse ex_error_line = Some (result_entry True) \<and>
   extractToolResult (result_entry True) = Inr (Some (JString (js ''t1''), JBool True)) \<and>
   JSON_parse ex_use_line = Some ex_use_entry \<and>
   extractBashCommand ex_use_entry = Inr (Some ex_command) \<and>
   extractToolUseId ex_use_entry = Inr (Some (JString (js ''t1''))) \<and>
   createFileStream [] (Some [ex_error_line, ex_use_line]) (js ''a.jsonl'') =
     ([], [Yield (ex_command\<lparr>success := Some True\<rparr>)]) \<and>
   Some True \<noteq> Some (\<not> truthy (JBool True))"
proof -
  have g: "map_get [] (JString (js ''t1'')) = None" by simp
  have s1: "processEntry [] ex_error_line (0 + 1) (js ''a.jsonl'') = ([], [])"
    using ex_error_line_parse result_entry_result g by (rule processEntry_result_missing)
  have s2: "processEntry [] ex_use_line (0 + 1 + 1) (js ''a.jsonl'') = ([(JString (js ''t1''), ex_command)], [])"
    using processEntry_bash_with_id [OF ex_use_line_parse ex_use_entry_command ex_use_entry_id, of "[]"]
    by simp
  have r2: "processLines_from [] (0 + 1) (0 + 1) (js ''a.jsonl'') [ex_use_line] =
              ([(JString (js ''t1''), ex_command)], [])"
    using processLines_from_step [OF parsed_line_not_blank [OF ex_use_line_parse] ex_use_line_marked s2,
        of "0 + 1" "[(JString (js ''t1''), ex_command)]" "[]" "[]" "[(JString (js ''t1''), ex_command)]" "[]"]
    by (simp add: maxPendingEntries_def)
  have "processLines_from [] 0 0 (js ''a.jsonl'') [ex_error_line, ex_use_line] =
              ([(JString (js ''t1''), ex_command)], [])"
    using processLines_from_step [OF parsed_line_not_blank [OF ex_error_line_parse] ex_error_line_marked s1 _ r2,
        of "[]"]
    by (simp add: maxPendingEntries_def)
  then have "createFileStream [] (Some [ex_error_line, ex_use_line]) (js ''a.jsonl'') =
     ([], [Yield (ex_command\<lparr>success := Some True\<rparr>)])"
    by (simp add: createFileStream_def processLines_def flushPendingCommands_def)
  then show ?thesis
    using ex_error_line_parse result_entry_result ex_use_line_parse ex_use_entry_command ex_use_entry_id
    by (simp add: truthy_def)
qed

text \<open>
  Claim C6. A Bash command extracted from an entry without a tool-use identifier is
  emitted by \<open>processEntry\<close> at once with \<open>success = true\<close>, and the pending table stays
  as it was; in the loop over the lines it is the first event from that line on, whatever
  lines follow.
\<close>

theorem bash_without_id_emitted_at_once:
  assumes "JSON_parse line = Some entry"
    and "extractBashCommand entry = Inr (Some c)"
    and "extractToolUseId entry = Inr None"
  shows "processEntry p line n f = (p, [Yield (c\<lparr>success := Some True\<rparr>)]) \<and>
         (lineContainsCommands line \<longrightarrow>
            (\<exists>p' out. processLines_from p lno ec f (line # rest) =
                        (p', Yield (c\<lparr>success := Some True\<rparr>) # out)))"
proof -
  have e: "\<And>n. processEntry p line n f = (p, [Yield (c\<lparr>success := Some True\<rparr>)])"
    using assms by (rule processEntry_bash_no_id)
  have nb: "trim line \<noteq> []" using assms(1) by (rule parsed_line_not_blank)
  show ?thesis
  proof (intro conjI impI)
    show "processEntry p line n f = (p, [Yield (c\<lparr>success := Some True\<rparr>)])" by (rule e)
  next
    assume m: "lineContainsCommands line"
    obtain p2 out2 where c:
      "(if (ec + 1) mod maxPendingEntries = 0 then cleanupOldPendingCommands p else (p, [])) = (p2, out2)"
      by (cases "(if (ec + 1) mod maxPendingEntries = 0 then cleanupOldPendingCommands p else (p, []))")
    obtain p3 out3 where r: "processLines_from p2 (lno + 1) (ec + 1) f rest = (p3, out3)"
      by (cases "processLines_from p2 (lno + 1) (ec + 1) f rest")
    from processLines_from_step [OF nb m e c r]
    show "\<exists>p' out. processLines_from p lno ec f (line # rest) =
            (p', Yield (c\<lparr>success := Some True\<rparr>) # out)"
      by simp
  qed
qed

theorem bash_without_id_emitted_at_once_witness:
  "processEntry [] ex_no_id_line 1 (js ''a.jsonl'') =
     ([], [Yield (ex_command\<lparr>success := Some True\<rparr>)]) \<and>
   lineContainsCommands ex_no_id_line \<and>
   (\<exists>p' out. processLines_from [] 0 0 (js ''a.jsonl'') [ex_no_id_line, ex_error_line] =
                (p', Yield (ex_command\<lparr>success := Some True\<rparr>) # out))"
proof -
  have b: "extractBashCommand ex_no_id_entry = Inr (Some ex_command)" by (simp add: eval_defs)
  have i: "extractToolUseId ex_no_id_entry = Inr None" by (simp add: eval_defs)
  have m: "lineContainsCommands ex_no_id_line" by code_simp
  show ?thesis
    using bash_without_id_emitted_at_once [OF ex_no_id_line_parse b i, of "[]" 1 "js ''a.jsonl''" 0 0 "[ex_error_line]"] m
    by simp
qed

text \<open>
  Claim C10. When the Bash block that \<open>findBashToolBlock\<close> finds has the empty string as
  its \<^verbatim>\<open>id\<close>, \<open>extractToolUseId\<close> gives no identifier: the command is emitted at once
  with \<open>success = true\<close>, the pending table is unchanged, and no tool result carries the
  empty identifier.
\<close>

theorem empty_id_is_no_id:
  assumes "JSON_parse line = Some entry"
    and "extractBashCommand entry = Inr (Some c)"
    and "message_content entry = Some content"
    and "findBashToolBlock content = Inr (Some block)"
    and "get block (js ''id'') = Some (JString [])"
  shows "extractToolUseId entry = Inr None \<and>
         processEntry p line n f = (p, [Yield (c\<lparr>success := Some True\<rparr>)]) \<and>
         (\<forall>e b. extractToolResult e \<noteq> Inr (Some (JString [], b)))"
proof (intro conjI allI)
  show i: "extractToolUseId entry = Inr None"
    using assms(2-5) by (rule extractToolUseId_empty)
  show "processEntry p line n f = (p, [Yield (c\<lparr>success := Some True\<rparr>)])"
    using assms(1,2) i by (rule processEntry_bash_no_id)
  show "extractToolResult e \<noteq> Inr (Some (JString [], b))" for e b
    using extractToolResult_truthy_id [of e "JString []" b] by (auto simp: truthy_def)
qed

theorem empty_id_is_no_id_witness:
  "extractToolUseId ex_empty_id_entry = Inr None \<and>
   processEntry [] ex_empty_id_line 1 (js ''a.jsonl'') = ([], [Yield (ex_command\<lparr>success := Some True\<rparr>)])"
proof -
  have b: "extractBashCommand ex_empty_id_entry = Inr (Some ex_command)" by (simp add: eval_defs)
  have m: "message_content ex_empty_id_entry = Some (JArray [bash_block [(js ''id'', JString [])]])"
    by (simp add: eval_defs)
  have k: "findBashToolBlock (JArray [bash_block [(js ''id'', JString [])]]) =
             Inr (Some (bash_block [(js ''id'', JString [])]))"
    by (simp add: eval_defs)
  have g: "get (bash_block [(js ''id'', JString [])]) (js ''id'') = Some (JString [])"
    by (simp add: eval_defs)
  show ?thesis
    using empty_id_is_no_id [OF ex_empty_id_line_parse b m k g, of "[]" 1 "js ''a.jsonl''"] by simp
qed

text \<open>
  Claim C2. When the lines of a file are exhausted, \<open>createFileStream\<close> emits after the
  events of the lines every command still pending, once each and in the order of the
  table, with \<open>success = true\<close>, and the table is empty afterwards. In particular a file
  with one Bash tool-use line that has an identifier, and otherwise only lines that are
  blank or carry no marker, gives exactly one command, with \<open>success = true\<close>.
\<close>

theorem end_of_file_flush:
  "fst (createFileStream p (Some rl) f) = [] \<and>
   snd (createFileStream p (Some rl) f) =
     snd (processLines p rl f) @
     map (\<lambda>(k, c). Yield (c\<lparr>success := Some True\<rparr>)) (fst (processLines p rl f)) \<and>
   (JSON_parse line = Some entry \<and> extractBashCommand entry = Inr (Some c) \<and>
    extractToolUseId entry = Inr (Some i) \<and> lineContainsCommands line \<and>
    (\<forall>l \<in> set pre \<union> set post. trim l = [] \<or> \<not> lineContainsCommands l) \<longrightarrow>
      createFileStream [] (Some (pre @ [line] @ post)) f =
        ([], [Yield (c\<lparr>success := Some True\<rparr>)]))"
proof (intro conjI impI)
  show "fst (createFileStream p (Some rl) f) = []"
    by (simp add: createFileStream_def flushPendingCommands_def split: prod.splits)
  show "snd (createFileStream p (Some rl) f) =
     snd (processLines p rl f) @
     map (\<lambda>(k, c). Yield (c\<lparr>success := Some True\<rparr>)) (fst (processLines p rl f))"
    by (simp add: createFileStream_def flushPendingCommands_def split: prod.splits)
  assume "JSON_parse line = Some entry \<and> extractBashCommand entry = Inr (Some c) \<and>
    extractToolUseId entry = Inr (Some i) \<and> lineContainsCommands line \<and>
    (\<forall>l \<in> set pre \<union> set post. trim l = [] \<or> \<not> lineContainsCommands l)"
  then have "processLines_from [] 0 0 f (pre @ [line] @ post) = ([(i, c)], [])"
    by (intro one_command_file) auto
  then show "createFileStream [] (Some (pre @ [line] @ post)) f =
        ([], [Yield (c\<lparr>success := Some True\<rparr>)])"
    by (simp add: createFileStream_def processLines_def flushPendingCommands_def)
qed

theorem end_of_file_flush_witness:
  "createFileStream [] (Some ([[], ex_malformed_line] @ [ex_use_line] @ [js ''  ''])) (js ''a.jsonl'') =
     ([], [Yield (ex_command\<lparr>success := Some True\<rparr>)])"
proof -
  have "trim [] = []" "trim (js ''  '') = []"
    by (simp_all add: trim_def isWhiteSpace_def js_def)
  moreover have "\<not> lineContainsCommands ex_malformed_line"
    by (simp add: lineContainsCommands_def ex_malformed_line_def js_def)
  ultimately have
    "\<forall>l \<in> set [[], ex_malformed_line] \<union> set [js ''  '']. trim l = [] \<or> \<not> lineContainsCommands l"
    by simp
  then show ?thesis
    using end_of_file_flush [where line = ex_use_line and entry = ex_use_entry and c = ex_command
        and i = "JString (js ''t1'')" and pre = "[[], ex_malformed_line]" and post = "[js ''  '']"
        and f = "js ''a.jsonl''"]
      ex_use_line_parse ex_use_entry_command ex_use_entry_id ex_use_line_marked
    by blast
qed

text \<open>
  Claim C5, amended. In a file of one line that is not JSON, then a Bash tool-use line
  and its tool-result line, the pair is resolved to exactly one command with \<open>success\<close>
  the negation of \<^verbatim>\<open>is_error\<close>, and the table is empty at the end. The malformed
  line gives no command. It gives one message on the error channel, with its line
  number, if it is not blank and carries one of the markers of \<open>lineContainsCommands\<close>;
  otherwise it is skipped before decoding and gives no message.
\<close>

theorem malformed_line_then_pair:
  assumes "JSON_parse l0 = None"
    and "JSON_parse l1 = Some e1"
    and "extractBashCommand e1 = Inr (Some c)"
    and "extractToolUseId e1 = Inr (Some i)"
    and "JSON_parse l2 = Some e2"
    and "extractToolResult e2 = Inr (Some (i', b))"
    and "same_value_zero i i'"
    and "lineContainsCommands l1"
    and "lineContainsCommands l2"
  shows "createFileStream [] (Some [l0, l1, l2]) f =
           ([], (if trim l0 \<noteq> [] \<and> lineContainsCommands l0
                 then [ConsoleError (ErrorParsingLine 1 f JSON_syntax)] else []) @
                [Yield (c\<lparr>success := Some (\<not> truthy b)\<rparr>)])"
  using malformed_then_pair_lines [OF assms, of f]
  by (simp add: createFileStream_def processLines_def flushPendingCommands_def)

theorem malformed_line_then_pair_witness:
  "createFileStream [] (Some [ex_malformed_marked_line, ex_use_line, ex_error_line]) (js ''a.jsonl'') =
     ([], [ConsoleError (ErrorParsingLine 1 (js ''a.jsonl'') JSON_syntax),
           Yield (ex_command\<lparr>success := Some False\<rparr>)])"
  using malformed_line_then_pair [OF ex_malformed_marked_line_parse ex_use_line_parse
      ex_use_entry_command ex_use_entry_id ex_error_line_parse result_entry_result same_t1
      ex_use_line_marked ex_error_line_marked, of "js ''a.jsonl''"]
    ex_malformed_marked_line_marked
  by (simp add: truthy_def)

text \<open>
  Claim C5 as stated fails for a malformed line without a marker: the line classifier
  skips it, \<^verbatim>\<open>JSON.parse\<close> never sees it, and nothing is written to the error channel.
\<close>

theorem unmarked_malformed_line_counterexample:
  "JSON_parse ex_malformed_line = None \<and>
   createFileStream [] (Some [ex_malformed_line, ex_use_line, ex_result_line]) (js ''a.jsonl'') =
     ([], [Yield (ex_command\<lparr>success := Some True\<rparr>)]) \<and>
   diagnostics_of (snd (createFileStream [] (Some [ex_malformed_line, ex_use_line, ex_result_line])
                          (js ''a.jsonl''))) = []"
proof -
  have "processLines_from [] 0 0 (js ''a.jsonl'') [ex_malformed_line, ex_use_line, ex_result_line] =
          ([], [Yield (ex_command\<lparr>success := Some True\<rparr>)])"
    using malformed_then_pair_lines [OF ex_malformed_line_parse ex_use_line_parse
      ex_use_entry_command ex_use_entry_id ex_result_line_parse result_entry_result same_t1
      ex_use_line_marked ex_result_line_marked, of "js ''a.jsonl''"]
      ex_malformed_line_unmarked
    by (simp add: truthy_def)
  then have "createFileStream [] (Some [ex_malformed_line, ex_use_line, ex_result_line]) (js ''a.jsonl'') =
     ([], [Yield (ex_command\<lparr>success := Some True\<rparr>)])"
    by (simp add: createFileStream_def processLines_def flushPendingCommands_def)
  then show ?thesis
    using ex_malformed_line_parse by (simp add: diagnostics_of_def)
qed

text \<open>
  Claim C7, amended. For every user entry from which \<open>extractUserCommand\<close> extracts a
  command (plain-text content whose first match of the tag has an inner text that is not
  blank), \<open>processEntry\<close> emits that command at once with \<open>success = true\<close>, whatever
  the pending table holds, and leaves the table as it was. And no command of source
  \<open>User\<close> in the whole stream of a project ever has another \<open>success\<close> than \<open>true\<close>.
\<close>

theorem user_command_always_successful:
  "(JSON_parse line = Some entry \<and> extractUserCommand entry = Inr (Some c) \<longrightarrow>
      processEntry p line n f = (p, [Yield (c\<lparr>success := Some True\<rparr>)]) \<and> source c = User) \<and>
   user_commands_successful (createResilientCommandStream dir d)"
  using processEntry_user [of line entry c p n f] extractUserCommand_source [of entry c]
    createResilientCommandStream_inv [of dir d]
  by blast

theorem user_command_always_successful_witness:
  "processEntry [] ex_user_line 1 (js ''a.jsonl'') =
     ([], [Yield (ex_user_command\<lparr>success := Some True\<rparr>)]) \<and>
   Yield (ex_user_command\<lparr>success := Some True\<rparr>) \<in>
     set (createResilientCommandStream
       (Some [\<lparr>entry_name = js ''a.jsonl'', entry_mtime = Some 1,
               entry_lines = Some [ex_error_line, ex_user_line, ex_error_line]\<rparr>]) (js ''p'')) \<and>
   source (ex_user_command\<lparr>success := Some True\<rparr>) = User \<and>
   success (ex_user_command\<lparr>success := Some True\<rparr>) = Some True"
  using user_command_always_successful [of ex_user_line
      "user_entry (js ''<bash-input>ls -la</bash-input>'')" ex_user_command "[]" 1 "js ''a.jsonl''"
      "Some [\<lparr>entry_name = js ''a.jsonl'', entry_mtime = Some 1,
               entry_lines = Some [ex_error_line, ex_user_line, ex_error_line]\<rparr>]" "js ''p''"]
    ex_user_line_parse ex_user_entry_command ex_file_with_user_command
  by (simp add: user_commands_successful_def)

text \<open>
  Claim C7 as stated fails for a tag with nothing in it: the content contains
  \<^verbatim>\<open><bash-input></bash-input>\<close>, \<open>findUserCommand\<close> gives the empty string, and the
  guard \<^verbatim>\<open>if (!command) return null\<close> of \<open>extractUserCommand\<close> lets no command out.
\<close>

theorem empty_bash_input_counterexample:
  "JSON_parse ex_empty_tag_line = Some (user_entry (js ''<bash-input></bash-input>'')) \<and>
   get_checked (user_entry (js ''<bash-input></bash-input>'')) (js ''type'') =
     Inr (Some (JString (js ''user''))) \<and>
   message_content (user_entry (js ''<bash-input></bash-input>'')) =
     Some (JString (js ''<bash-input></bash-input>'')) \<and>
   includes_str (js ''<bash-input></bash-input>'') (js ''<bash-input>'') \<and>
   processEntry [] ex_empty_tag_line 1 (js ''a.jsonl'') = ([], [])"
proof -
  have "processEntry [] ex_empty_tag_line 1 (js ''a.jsonl'') = ([], [])"
    using ex_empty_tag_line_parse ex_empty_tag_no_command
      user_no_bash [OF user_entry_type, of "js ''<bash-input></bash-input>''"]
      user_entry_no_result [of "js ''<bash-input></bash-input>''"]
    by (simp add: processEntry_def handleBashToolUse_def handleToolResult_def handleUserCommand_def)
  moreover have "includes_str (js ''<bash-input></bash-input>'') (js ''<bash-input>'')"
    by (simp add: js_def)
  ultimately show ?thesis
    using ex_empty_tag_line_parse user_entry_type user_entry_content by simp
qed

text \<open>
  Claim C9. In a project directory whose log files can all be examined, let \<open>A\<close> and
  \<open>B\<close> be two files with names ending in \<^verbatim>\<open>.jsonl\<close>, \<open>A\<close> modified before \<open>B\<close>, each
  giving one command when streamed alone. Then the stream of the project gives the command
  of \<open>A\<close> before the command of \<open>B\<close>, in whatever order the directory lists them.
\<close>

theorem older_file_first:
  assumes "A \<in> set files" and "B \<in> set files"
    and "endsWith (entry_name A) (js ''.jsonl'')"
    and "endsWith (entry_name B) (js ''.jsonl'')"
    and "\<forall>f \<in> set files. endsWith (entry_name f) (js ''.jsonl'') \<longrightarrow> entry_mtime f \<noteq> None"
    and "entry_mtime A = Some a" and "entry_mtime B = Some b" and "a < b"
    and "commands_of (snd (createFileStream [] (entry_lines A) (join_path d (entry_name A)))) = [cA]"
    and "commands_of (snd (createFileStream [] (entry_lines B) (join_path d (entry_name B)))) = [cB]"
  shows "\<exists>pre mid post.
           commands_of (createResilientCommandStream (Some files) d) = pre @ [cA] @ mid @ [cB] @ post"
proof -
  let ?jsonl = "filter (\<lambda>f. endsWith (entry_name f) (js ''.jsonl'')) files"
  let ?k = "\<lambda>f. the (entry_mtime f)"
  let ?sorted = "sort_key ?k ?jsonl"
  have ok: "\<not> list_ex (\<lambda>f. entry_mtime f = None) ?jsonl"
    using assms(5) by (auto simp: list_ex_iff)
  have s: "createResilientCommandStream (Some files) d = snd (streamFiles [] d ?sorted)"
    using ok by (simp add: createResilientCommandStream_def createProjectStream_def)
  have "sorted (map ?k ?sorted)" by (rule sorted_sort_key)
  moreover have "A \<in> set ?sorted" "B \<in> set ?sorted" using assms(1-4) by auto
  moreover have "?k A < ?k B" using assms(6-8) by simp
  ultimately obtain l1 l2 l3 where l: "?sorted = l1 @ A # l2 @ B # l3"
    using sorted_before [of ?k ?sorted A B] by blast
  have "snd (streamFiles [] d ?sorted) =
          snd (streamFiles [] d l1) @
          snd (createFileStream [] (entry_lines A) (join_path d (entry_name A))) @
          snd (streamFiles [] d l2) @
          snd (createFileStream [] (entry_lines B) (join_path d (entry_name B))) @
          snd (streamFiles [] d l3)"
    unfolding l by (simp only: streamFiles_append streamFiles_Cons append_assoc)
  then have "commands_of (createResilientCommandStream (Some files) d) =
          commands_of (snd (streamFiles [] d l1)) @ [cA] @
          commands_of (snd (streamFiles [] d l2)) @ [cB] @
          commands_of (snd (streamFiles [] d l3))"
    using s assms(9,10) by (simp add: commands_of_append)
  then show ?thesis by blast
qed

theorem older_file_first_witness:
  "\<exists>pre mid post.
     commands_of (createResilientCommandStream
       (Some [\<lparr>entry_name = js ''b.jsonl'', entry_mtime = Some 2000, entry_lines = Some [ex_user_line]\<rparr>,
              \<lparr>entry_name = js ''notes.txt'', entry_mtime = None, entry_lines = None\<rparr>,
              \<lparr>entry_name = js ''a.jsonl'', entry_mtime = Some 1000, entry_lines = Some [ex_use_line]\<rparr>])
       (js ''project'')) =
     pre @ [ex_command\<lparr>success := Some True\<rparr>] @ mid @ [ex_user_command\<lparr>success := Some True\<rparr>] @ post"
proof -
  let ?A = "\<lparr>entry_name = js ''a.jsonl'', entry_mtime = Some 1000, entry_lines = Some [ex_use_line]\<rparr>"
  let ?B = "\<lparr>entry_name = js ''b.jsonl'', entry_mtime = Some 2000, entry_lines = Some [ex_user_line]\<rparr>"
  let ?N = "\<lparr>entry_name = js ''notes.txt'', entry_mtime = None, entry_lines = None\<rparr>"
  have 1: "?A \<in> set [?B, ?N, ?A]" and 2: "?B \<in> set [?B, ?N, ?A]" by simp_all
  have 3: "endsWith (entry_name ?A) (js ''.jsonl'')" and 4: "endsWith (entry_name ?B) (js ''.jsonl'')"
    by (simp_all add: endsWith_def js_def)
  have 5: "\<forall>f \<in> set [?B, ?N, ?A]. endsWith (entry_name f) (js ''.jsonl'') \<longrightarrow> entry_mtime f \<noteq> None"
    by (simp add: endsWith_def js_def)
  have 6: "entry_mtime ?A = Some 1000" and 7: "entry_mtime ?B = Some 2000" and 8: "(1000::int) < 2000"
    by simp_all
  have 9: "commands_of (snd (createFileStream [] (entry_lines ?A) (join_path (js ''project'') (entry_name ?A)))) =
             [ex_command\<lparr>success := Some True\<rparr>]"
    by (simp add: ex_use_file commands_of_def)
  have 10: "commands_of (snd (createFileStream [] (entry_lines ?B) (join_path (js ''project'') (entry_name ?B)))) =
             [ex_user_command\<lparr>success := Some True\<rparr>]"
    by (simp add: ex_user_file commands_of_def)
  show ?thesis by (rule older_file_first [OF 1 2 3 4 5 6 7 8 9 10])
qed

text \<open>
  Claim C3 fails on \<open>ex_long_file\<close>. Its 200th line is empty, so the loop leaves the
  body at the first \<^verbatim>\<open>continue\<close> and the periodic cleanup is not reached: after 200
  lines the pending table holds 198 commands, more than \<open>maxPendingEntries\<close>, and
  nothing was flushed. The two lines that follow bring the table to 200 commands after
  the 200th decoded line, again with no cleanup.
\<close>

theorem cleanup_skipped_with_blank_line:
  "length (take 200 ex_long_file) = 200 \<and>
   200 mod maxPendingEntries = 0 \<and>
   snd (processLines [] (take 200 ex_long_file) (js ''a.jsonl'')) = [] \<and>
   length (fst (processLines [] (take 200 ex_long_file) (js ''a.jsonl''))) = 198 \<and>
   snd (processLines [] ex_long_file (js ''a.jsonl'')) = [] \<and>
   length (fst (processLines [] ex_long_file (js ''a.jsonl''))) = 200 \<and>
   maxPendingEntries < 198"
proof -
  let ?F = "\<lambda>p k. map_set p (JString (numbered_id k)) ex_command"
  have l198: "length (foldl ?F [] [0..<198]) = 198"
    using numbered_table_length [of "[0..<198]" "[]"] by simp
  have l200: "length (foldl ?F [] [0..<200]) = 200"
    using numbered_table_length [of "[0..<200]" "[]"] by simp
  let ?f = "js ''a.jsonl''"
  have a: "processLines [] (take 200 ex_long_file) ?f = (foldl ?F [] [0..<198], [])"
    using ex_long_file_prefix_run [of ?f "[]"] by (simp add: processLines_def ex_long_file_take)
  have k: "\<forall>k \<in> set [198..<200]. k < (676::nat)" by simp
  have j: "\<forall>j < length [198..<200]. (200 + j + 1) mod maxPendingEntries = 0 \<longrightarrow>
             length (foldl ?F [] [0..<198]) + j + 1 \<le> maxPendingEntries"
    unfolding maxPendingEntries_def by (simp, presburger)
  have "processLines [] ex_long_file ?f =
          processLines_from (foldl ?F [] [0..<198]) 200 200 ?f (map numbered_use_line [198..<200] @ [])"
    using ex_long_file_prefix_run [of ?f "map numbered_use_line [198..<200]"]
    by (simp add: processLines_def ex_long_file_def)
  also have "\<dots> = processLines_from (foldl ?F (foldl ?F [] [0..<198]) [198..<200])
                    (200 + length [198..<200]) (200 + length [198..<200]) ?f []"
    using k j by (rule numbered_lines_run)
  also have "foldl ?F (foldl ?F [] [0..<198]) [198..<200] = foldl ?F [] ([0..<198] @ [198..<200])"
    by (simp only: foldl_append)
  also have "[0..<198] @ [198..<200] = [0..<(200::nat)]"
    by (simp add: upt_add_eq_append [of 0 198 2, simplified])
  finally have b: "processLines [] ex_long_file ?f = (foldl ?F [] [0..<200], [])" by simp
  show ?thesis
    using a b l198 l200 by (simp add: maxPendingEntries_def ex_long_file_take)
qed

text \<open>
  Claim C4 fails on \<open>ex_escaped_line\<close>: the line classifier returns false, since the
  raw line spells the \<^verbatim>\<open><\<close> of the opening tag as a JSON escape, while the entry the
  line decodes to is the one of \<open>ex_user_line\<close>, from which \<open>extractUserCommand\<close> extracts
  a command. The file with the escaped line gives no event, the file with the plain line
  gives the command.
\<close>

theorem escaped_marker_filtered_out:
  "\<not> lineContainsCommands ex_escaped_line \<and>
   JSON_parse ex_escaped_line = Some (user_entry (js ''<bash-input>ls -la</bash-input>'')) \<and>
   extractUserCommand (user_entry (js ''<bash-input>ls -la</bash-input>'')) =
     Inr (Some ex_user_command) \<and>
   createFileStream [] (Some [ex_escaped_line]) (js ''a.jsonl'') = ([], []) \<and>
   JSON_parse ex_user_line = JSON_parse ex_escaped_line \<and>
   createFileStream [] (Some [ex_user_line]) (js ''a.jsonl'') =
     ([], [Yield (ex_user_command\<lparr>success := Some True\<rparr>)])"
proof -
  have "processLines_from [] 0 0 (js ''a.jsonl'') [ex_escaped_line] = ([], [])"
    using ex_escaped_line_unmarked by simp
  then have "createFileStream [] (Some [ex_escaped_line]) (js ''a.jsonl'') = ([], [])"
    by (simp add: createFileStream_def processLines_def flushPendingCommands_def)
  then show ?thesis
    using ex_escaped_line_unmarked ex_escaped_line_parse ex_user_entry_command ex_user_line_parse
      ex_user_file [of "js ''a.jsonl''"]
    by simp
qed

theorem escaped_marker_filtered_out_witness:
  "commands_of (snd (createFileStream [] (Some [ex_escaped_line]) (js ''a.jsonl''))) = [] \<and>
   commands_of (snd (createFileStream [] (Some [ex_user_line]) (js ''a.jsonl''))) =
     [ex_user_command\<lparr>success := Some True\<rparr>]"
  using escaped_marker_filtered_out by (simp add: commands_of_def)

end
